theory Spec2Isabelle
  imports Main "HOL-Library.AList" "HOL-Library.Sublist" "HOL-Library.Char_ord"
    "HOL-Library.List_Lexorder"
begin

section \<open>Path names\<close>

text \<open>
  The driver builds every path with \<^verbatim>\<open>filepath.Join\<close> and \<^verbatim>\<open>filepath.Clean\<close> and then
  appends the suffixes \<^verbatim>\<open>.json\<close> and \<^verbatim>\<open>.tmp\<close> to the resulting string. Path names are
  therefore kept as strings, with the slash as the separator, and the two library functions
  are modelled on the element lists of those strings.
\<close>

type_synonym path = "string list"

text \<open>The elements of a path name: the pieces between the separators.\<close>

fun split_sep :: "string \<Rightarrow> string list" where
  "split_sep [] = [[]]"
| "split_sep (c # cs) =
     (if c = CHR ''/'' then [] # split_sep cs
      else (case split_sep cs of [] \<Rightarrow> [[c]] | x # xs \<Rightarrow> (c # x) # xs))"

text \<open>\<^verbatim>\<open>strings.Join(elem, "/")\<close>.\<close>

fun join_sep :: "string list \<Rightarrow> string" where
  "join_sep [] = []"
| "join_sep [x] = x"
| "join_sep (x # y # ys) = x @ CHR ''/'' # join_sep (y # ys)"

text \<open>
  The loop of \<^verbatim>\<open>filepath.Clean\<close> over the elements of the path. \<open>out\<close> holds the elements
  written so far, the most recent one first. Empty elements and \<^verbatim>\<open>.\<close> are dropped; \<^verbatim>\<open>..\<close>
  removes the last element written when there is one that is not itself \<^verbatim>\<open>..\<close>, is kept
  when the path is not rooted, and is dropped at the root.
\<close>

fun elems :: "bool \<Rightarrow> string list \<Rightarrow> string list \<Rightarrow> string list" where
  "elems rooted out [] = rev out"
| "elems rooted out (e # es) =
     (if e = [] \<or> e = ''.'' then elems rooted out es
      else if e = ''..'' then
        (if out \<noteq> [] \<and> hd out \<noteq> ''..'' then elems rooted (tl out) es
         else if \<not> rooted then elems rooted (e # out) es
         else elems rooted out es)
      else elems rooted (e # out) es)"

definition Clean :: "string \<Rightarrow> string" where
  "Clean p =
     (if p = [] then ''.''
      else
        (let rooted = (hd p = CHR ''/'');
             out = elems rooted [] (split_sep p)
         in if rooted then CHR ''/'' # join_sep out
            else if out = [] then ''.''
            else join_sep out))"

text \<open>
  \<^verbatim>\<open>filepath.Join\<close>: the leading empty elements are skipped, the rest is joined with the
  separator and cleaned; the result is empty when every element is.
\<close>

definition Join :: "string list \<Rightarrow> string" where
  "Join elem =
     (case dropWhile (\<lambda>e. e = []) elem of
        [] \<Rightarrow> []
      | e # es \<Rightarrow> Clean (join_sep (e # es)))"

section \<open>The file system\<close>

text \<open>
  The file system is a tree of regular files and directories; a directory lists its entries
  by name. There are no links, no permissions and no special files. A path name is resolved
  from the root, or from the working directory when it is not rooted; the driver only ever
  passes cleaned names with a suffix, in which \<^verbatim>\<open>..\<close> can only lead a relative name and
  then steps from the working directory towards the root.
\<close>

datatype node = File string | Dir "(string \<times> node) list"

datatype errno =
  ENOENT | ENOTDIR | EISDIR | EEXIST | ENOTEMPTY | EINVAL | EBUSY | EACCES | EIO | ENOSPC

datatype FileMode = ModeRegular | ModeDir

fun Mode :: "node \<Rightarrow> FileMode" where
  "Mode (File c) = ModeRegular"
| "Mode (Dir es) = ModeDir"

definition IsDir :: "FileMode \<Rightarrow> bool" where
  "IsDir m = (m = ModeDir)"

definition IsRegular :: "FileMode \<Rightarrow> bool" where
  "IsRegular m = (m = ModeRegular)"

definition resolve :: "path \<Rightarrow> string \<Rightarrow> path" where
  "resolve wd name =
     (if name \<noteq> [] \<and> hd name = CHR ''/'' then elems True [] (split_sep name)
      else elems True (rev wd) (split_sep name))"

text \<open>Walking a path down the tree, as the kernel does for every system call.\<close>

fun lookup :: "node \<Rightarrow> path \<Rightarrow> errno + node" where
  "lookup n [] = Inr n"
| "lookup (File c) (x # xs) = Inl ENOTDIR"
| "lookup (Dir es) (x # xs) =
     (case map_of es x of None \<Rightarrow> Inl ENOENT | Some n \<Rightarrow> lookup n xs)"

text \<open>Creating a directory and every missing parent.\<close>

fun mkdirs :: "node \<Rightarrow> path \<Rightarrow> errno + node" where
  "mkdirs (File c) p = Inl ENOTDIR"
| "mkdirs (Dir es) [] = Inr (Dir es)"
| "mkdirs (Dir es) (x # xs) =
     (case mkdirs (case map_of es x of None \<Rightarrow> Dir [] | Some n \<Rightarrow> n) xs of
        Inl e \<Rightarrow> Inl e
      | Inr n' \<Rightarrow> Inr (Dir (AList.update x n' es)))"

text \<open>
  Binding a name to a node, replacing what the name was bound to; the parent directory has
  to exist.
\<close>

fun place :: "node \<Rightarrow> path \<Rightarrow> node \<Rightarrow> errno + node" where
  "place t [] n = Inr n"
| "place (File c) (x # xs) n = Inl ENOTDIR"
| "place (Dir es) (x # xs) n =
     (if xs = [] then Inr (Dir (AList.update x n es))
      else
        (case map_of es x of
           None \<Rightarrow> Inl ENOENT
         | Some m \<Rightarrow>
             (case place m xs n of
                Inl e \<Rightarrow> Inl e
              | Inr m' \<Rightarrow> Inr (Dir (AList.update x m' es)))))"

text \<open>Removing a name together with everything below it; a missing name is no error.\<close>

fun unlink :: "node \<Rightarrow> path \<Rightarrow> errno + node" where
  "unlink t [] = Inl EBUSY"
| "unlink (File c) (x # xs) = Inl ENOTDIR"
| "unlink (Dir es) (x # xs) =
     (if xs = [] then Inr (Dir (AList.delete x es))
      else
        (case map_of es x of
           None \<Rightarrow> Inr (Dir es)
         | Some m \<Rightarrow>
             (case unlink m xs of
                Inl e \<Rightarrow> Inl e
              | Inr m' \<Rightarrow> Inr (Dir (AList.update x m' es)))))"

text \<open>Opening a file for writing with \<^verbatim>\<open>O_CREATE|O_TRUNC\<close> and storing the data.\<close>

definition create_file :: "node \<Rightarrow> path \<Rightarrow> string \<Rightarrow> errno + node" where
  "create_file t p data =
     (case lookup t p of
        Inr (Dir es) \<Rightarrow> Inl EISDIR
      | Inr (File c) \<Rightarrow> place t p (File data)
      | Inl e \<Rightarrow> if e = ENOENT then place t p (File data) else Inl e)"

text \<open>
  \<^verbatim>\<open>rename(2)\<close> behind the check of \<^verbatim>\<open>os.Rename\<close>, which refuses a new name that is a
  directory once it has found the old name.
\<close>

definition rename_node :: "node \<Rightarrow> path \<Rightarrow> path \<Rightarrow> errno + node" where
  "rename_node t old new =
     (case lookup t old of
        Inl e \<Rightarrow> Inl e
      | Inr n \<Rightarrow>
          (case lookup t new of
             Inr (Dir es) \<Rightarrow> Inl EEXIST
           | _ \<Rightarrow>
               if old = new then Inr t
               else if old = [] then Inl EBUSY
               else
                 (case place t new n of
                    Inl e \<Rightarrow> Inl e
                  | Inr t' \<Rightarrow> if prefix old new then Inl EINVAL else unlink t' old)))"

section \<open>The driver and its environment\<close>

text \<open>
  Go errors: the ones the driver makes with \<^verbatim>\<open>fmt.Errorf\<close> (the format and its
  arguments), the ones of the \<^verbatim>\<open>os\<close> package, and the ones of the encoder.
\<close>

datatype error = Errorf string "string list" | OSError errno | MarshalError string

definition IsNotExist :: "error option \<Rightarrow> bool" where
  "IsNotExist err = (err = Some (OSError ENOENT))"

text \<open>
  A failure the environment injects into a system call: the call fails with the error and
  without effect, or, for a write, after the first bytes have reached the file.
\<close>

datatype fault = Fail errno | FailPartial errno nat

fun errno_of :: "fault \<Rightarrow> errno" where
  "errno_of (Fail e) = e"
| "errno_of (FailPartial e n) = e"

datatype level = TRACE | DEBUG | INFO | WARN | ERROR | FATAL

datatype Logger = ConsoleLogger level | CustomLogger nat

datatype Options = Options (Logger: "Logger option")

text \<open>
  One state holds the fields of the \<^verbatim>\<open>Driver\<close> (\<open>dir\<close>, the keys of \<open>mutexes\<close>, \<open>log\<close>) and
  the environment it runs in: the calls made on the logger, the file system, the working
  directory, and the failures the environment will inject into the coming system calls,
  one entry for each call (\<open>None\<close>: the call behaves as the file system dictates; when the
  list is exhausted no failure is injected). The embedding is sequential, so locking and
  unlocking a mutex has no effect and only the registry of mutexes is kept.
\<close>

record state =
  dir :: string
  mutexes :: "string list"
  log :: Logger
  logged :: "(level \<times> string \<times> string list) list"
  root :: node
  cwd :: path
  faults :: "fault option list"

definition next_fault :: "state \<Rightarrow> state \<times> fault option" where
  "next_fault s =
     (case faults s of
        [] \<Rightarrow> (s, None)
      | f # fs \<Rightarrow> (s\<lparr>faults := fs\<rparr>, f))"

definition Debug :: "string \<Rightarrow> string list \<Rightarrow> state \<Rightarrow> state" where
  "Debug format args s = s\<lparr>logged := logged s @ [(DEBUG, format, args)]\<rparr>"

definition Info :: "string \<Rightarrow> string list \<Rightarrow> state \<Rightarrow> state" where
  "Info format args s = s\<lparr>logged := logged s @ [(INFO, format, args)]\<rparr>"

subsection \<open>The calls of the os and ioutil packages\<close>

text \<open>
  \<^verbatim>\<open>os.Stat\<close>; of the \<^verbatim>\<open>FileInfo\<close> the driver only consults the mode.
\<close>

definition os_Stat :: "string \<Rightarrow> state \<Rightarrow> state \<times> FileMode option \<times> error option" where
  "os_Stat name s =
     (case next_fault s of
        (s1, Some f) \<Rightarrow> (s1, None, Some (OSError (errno_of f)))
      | (s1, None) \<Rightarrow>
          if name = [] then (s1, None, Some (OSError ENOENT))
          else
            (case lookup (root s1) (resolve (cwd s1) name) of
               Inl e \<Rightarrow> (s1, None, Some (OSError e))
             | Inr n \<Rightarrow> (s1, Some (Mode n), None)))"

definition os_MkdirAll :: "string \<Rightarrow> state \<Rightarrow> state \<times> error option" where
  "os_MkdirAll name s =
     (case next_fault s of
        (s1, Some f) \<Rightarrow> (s1, Some (OSError (errno_of f)))
      | (s1, None) \<Rightarrow>
          if name = [] then (s1, Some (OSError ENOENT))
          else
            (case mkdirs (root s1) (resolve (cwd s1) name) of
               Inl e \<Rightarrow> (s1, Some (OSError e))
             | Inr t \<Rightarrow> (s1\<lparr>root := t\<rparr>, None)))"

text \<open>
  \<^verbatim>\<open>ioutil.WriteFile\<close>: an injected \<open>FailPartial e n\<close> leaves the first \<open>n\<close> bytes in the
  file and reports \<open>e\<close>.
\<close>

definition os_WriteFile :: "string \<Rightarrow> string \<Rightarrow> state \<Rightarrow> state \<times> error option" where
  "os_WriteFile name data s =
     (case next_fault s of
        (s1, Some (Fail e)) \<Rightarrow> (s1, Some (OSError e))
      | (s1, f) \<Rightarrow>
          if name = [] then (s1, Some (OSError ENOENT))
          else
            (case create_file (root s1) (resolve (cwd s1) name)
                    (case f of Some (FailPartial e n) \<Rightarrow> take n data | _ \<Rightarrow> data) of
               Inl e \<Rightarrow> (s1, Some (OSError e))
             | Inr t \<Rightarrow>
                 (s1\<lparr>root := t\<rparr>,
                  (case f of Some ft \<Rightarrow> Some (OSError (errno_of ft)) | None \<Rightarrow> None))))"

definition os_ReadFile :: "string \<Rightarrow> state \<Rightarrow> state \<times> string \<times> error option" where
  "os_ReadFile name s =
     (case next_fault s of
        (s1, Some f) \<Rightarrow> (s1, [], Some (OSError (errno_of f)))
      | (s1, None) \<Rightarrow>
          if name = [] then (s1, [], Some (OSError ENOENT))
          else
            (case lookup (root s1) (resolve (cwd s1) name) of
               Inl e \<Rightarrow> (s1, [], Some (OSError e))
             | Inr (Dir es) \<Rightarrow> (s1, [], Some (OSError EISDIR))
             | Inr (File c) \<Rightarrow> (s1, c, None)))"

text \<open>
  \<^verbatim>\<open>ioutil.ReadDir\<close> returns the entries sorted by name; of each entry the driver only
  consults the name.
\<close>

definition os_ReadDir :: "string \<Rightarrow> state \<Rightarrow> state \<times> string list \<times> error option" where
  "os_ReadDir name s =
     (case next_fault s of
        (s1, Some f) \<Rightarrow> (s1, [], Some (OSError (errno_of f)))
      | (s1, None) \<Rightarrow>
          if name = [] then (s1, [], Some (OSError ENOENT))
          else
            (case lookup (root s1) (resolve (cwd s1) name) of
               Inl e \<Rightarrow> (s1, [], Some (OSError e))
             | Inr (File c) \<Rightarrow> (s1, [], Some (OSError ENOTDIR))
             | Inr (Dir es) \<Rightarrow> (s1, sort (remdups (map fst es)), None)))"

definition os_Rename :: "string \<Rightarrow> string \<Rightarrow> state \<Rightarrow> state \<times> error option" where
  "os_Rename oldpath newpath s =
     (case next_fault s of
        (s1, Some f) \<Rightarrow> (s1, Some (OSError (errno_of f)))
      | (s1, None) \<Rightarrow>
          if oldpath = [] \<or> newpath = [] then (s1, Some (OSError ENOENT))
          else
            (case rename_node (root s1) (resolve (cwd s1) oldpath) (resolve (cwd s1) newpath) of
               Inl e \<Rightarrow> (s1, Some (OSError e))
             | Inr t \<Rightarrow> (s1\<lparr>root := t\<rparr>, None)))"

text \<open>
  \<^verbatim>\<open>os.RemoveAll\<close> returns nil for the empty name and for a name that does not exist, and
  refuses a name that ends in a dot. The root directory itself cannot be removed, and neither
  can a directory named by a path whose last element is \<^verbatim>\<open>..\<close>: the entries go, the directory
  stays, and the call reports the error of \<^verbatim>\<open>rmdir\<close>.
\<close>

definition dir_at :: "node \<Rightarrow> path \<Rightarrow> bool" where
  "dir_at t p = (case lookup t p of Inr (Dir es) \<Rightarrow> True | _ \<Rightarrow> False)"

definition endsWithDot :: "string \<Rightarrow> bool" where
  "endsWithDot name = (name = ''.'' \<or> suffix ''/.'' name)"

definition os_RemoveAll :: "string \<Rightarrow> state \<Rightarrow> state \<times> error option" where
  "os_RemoveAll name s =
     (if name = [] then (s, None)
      else if endsWithDot name then (s, Some (OSError EINVAL))
      else
        (case next_fault s of
           (s1, Some f) \<Rightarrow> (s1, Some (OSError (errno_of f)))
         | (s1, None) \<Rightarrow>
             (let p = resolve (cwd s1) name
              in if p = [] then (s1\<lparr>root := Dir []\<rparr>, Some (OSError EBUSY))
                 else if last (split_sep name) = ''..'' \<and> dir_at (root s1) p then
                   (case place (root s1) p (Dir []) of
                      Inl e \<Rightarrow> (s1, Some (OSError e))
                    | Inr t \<Rightarrow> (s1\<lparr>root := t\<rparr>, Some (OSError ENOTEMPTY)))
                 else
                   (case unlink (root s1) p of
                      Inl e \<Rightarrow> (s1, Some (OSError e))
                    | Inr t \<Rightarrow> (s1\<lparr>root := t\<rparr>, None)))))"

subsection \<open>The driver\<close>

definition New :: "string \<Rightarrow> Options option \<Rightarrow> state \<Rightarrow> state \<times> error option" where
  "New dir0 opt s =
     (let d = Clean dir0;
          opts = (case opt of None \<Rightarrow> Options None | Some o' \<Rightarrow> o');
          lg = (case Logger opts of None \<Rightarrow> ConsoleLogger INFO | Some l \<Rightarrow> l);
          driver = s\<lparr>dir := d, mutexes := [], log := lg\<rparr>
      in case os_Stat d driver of
           (s1, file, None) \<Rightarrow> (Debug ''%s already exists'' [d] s1, None)
         | (s1, file, Some e) \<Rightarrow> os_MkdirAll d (Debug ''creating %s database'' [d] s1))"

definition getMutex :: "string \<Rightarrow> state \<Rightarrow> state" where
  "getMutex collection s =
     (if collection \<in> set (mutexes s) then s
      else s\<lparr>mutexes := mutexes s @ [collection]\<rparr>)"

text \<open>
  The helper \<^verbatim>\<open>stat\<close>: the path as given, and the path with the extension when the first
  does not exist.
\<close>

definition stat :: "string \<Rightarrow> state \<Rightarrow> state \<times> FileMode option \<times> error option" where
  "stat p s =
     (case os_Stat p s of
        (s1, file, err) \<Rightarrow>
          if IsNotExist err then os_Stat (p @ ''.json'') s1 else (s1, file, err))"

text \<open>
  \<^verbatim>\<open>doWrite\<close> up to the rename: the directory of the collection is made, the value is
  encoded (\<open>marshal\<close> stands for \<^verbatim>\<open>json.MarshalIndent\<close> with a tab as the indent) and the
  bytes, with a newline appended, are written to the temporary file. The result is the error
  that ends \<^verbatim>\<open>doWrite\<close> early, or the names of the temporary and of the final file.
\<close>

definition doWrite_tmp ::
  "('v \<Rightarrow> string \<times> error option) \<Rightarrow> string \<Rightarrow> string \<Rightarrow> 'v \<Rightarrow> state
     \<Rightarrow> state \<times> (error + string \<times> string)" where
  "doWrite_tmp marshal collection ID v s =
     (let s0 = getMutex collection s;
          d = Join [dir s0, collection];
          fnlPath = Join [d, ID @ ''.json''];
          tmpPath = fnlPath @ ''.tmp''
      in case os_MkdirAll d s0 of
           (s1, Some err) \<Rightarrow> (s1, Inl err)
         | (s1, None) \<Rightarrow>
             (case marshal v of
                (b, Some err) \<Rightarrow> (s1, Inl err)
              | (b, None) \<Rightarrow>
                  (case os_WriteFile tmpPath (b @ [CHR 0x0A]) s1 of
                     (s2, Some err) \<Rightarrow> (s2, Inl err)
                   | (s2, None) \<Rightarrow> (s2, Inr (tmpPath, fnlPath)))))"

definition doWrite ::
  "('v \<Rightarrow> string \<times> error option) \<Rightarrow> string \<Rightarrow> string \<Rightarrow> 'v \<Rightarrow> state
     \<Rightarrow> state \<times> string \<times> error option" where
  "doWrite marshal collection ID v s =
     (case doWrite_tmp marshal collection ID v s of
        (s2, Inl err) \<Rightarrow> (s2, ID, Some err)
      | (s2, Inr (tmpPath, fnlPath)) \<Rightarrow>
          (case os_Rename tmpPath fnlPath (Info ''done creating: %s'' [ID] s2) of
             (s3, err) \<Rightarrow> (s3, ID, err)))"

definition Write ::
  "('v \<Rightarrow> string \<times> error option) \<Rightarrow> string \<Rightarrow> string \<Rightarrow> 'v \<Rightarrow> state
     \<Rightarrow> state \<times> string \<times> error option" where
  "Write marshal collection identifier v s =
     (if collection = [] then
        (s, [], Some (Errorf ''missing collection, no place to save data'' []))
      else if identifier = [] then (s, [], Some (Errorf ''missing identifier'' []))
      else doWrite marshal collection identifier v s)"

definition Read :: "string \<Rightarrow> string \<Rightarrow> state \<Rightarrow> state \<times> string \<times> error option" where
  "Read collection identifier s =
     (if collection = [] then
        (s, [], Some (Errorf ''missing collection, no place to get data'' []))
      else if identifier = [] then
        (s, [], Some (Errorf ''missing ID, no identifier to get data'' []))
      else
        (let record = Join [dir s, collection, identifier]
         in case stat record s of
              (s1, file, Some err) \<Rightarrow> (s1, [], Some err)
            | (s1, file, None) \<Rightarrow>
                (case os_ReadFile (record @ ''.json'') s1 of
                   (s2, b, Some err) \<Rightarrow> (s2, [], Some err)
                 | (s2, b, None) \<Rightarrow> (s2, b, None))))"

text \<open>The loop of \<^verbatim>\<open>ReadAll\<close> over the entries of the directory.\<close>

fun readFiles ::
  "string \<Rightarrow> string list \<Rightarrow> string list \<Rightarrow> state \<Rightarrow> state \<times> string list \<times> error option" where
  "readFiles d [] records s = (s, records, None)"
| "readFiles d (name # files) records s =
     (case os_ReadFile (Join [d, name]) s of
        (s1, b, Some err) \<Rightarrow> (s1, [], Some err)
      | (s1, b, None) \<Rightarrow> readFiles d files (records @ [b]) s1)"

definition ReadAll :: "string \<Rightarrow> state \<Rightarrow> state \<times> string list \<times> error option" where
  "ReadAll collection s =
     (if collection = [] then
        (s, [], Some (Errorf ''missing collection, no place to get data'' []))
      else
        (let d = Join [dir s, collection]
         in case stat d s of
              (s1, file, Some err) \<Rightarrow> (s1, [], Some err)
            | (s1, file, None) \<Rightarrow>
                (case os_ReadDir d s1 of
                   (s2, files, Some err) \<Rightarrow> (s2, [], Some err)
                 | (s2, files, None) \<Rightarrow> readFiles d files [] s2)))"

definition doDelete :: "string \<Rightarrow> string \<Rightarrow> state \<Rightarrow> state \<times> error option" where
  "doDelete collection ID s =
     (let p = Join [collection, ID];
          s0 = getMutex collection s;
          d = Join [dir s0, p]
      in case stat d s0 of
           (s1, file, err) \<Rightarrow>
             (case file of
                None \<Rightarrow> (s1, Some (Errorf ''unable to find directory %q'' [p]))
              | Some m \<Rightarrow>
                  if err \<noteq> None then (s1, Some (Errorf ''unable to find directory %q'' [p]))
                  else if IsDir m then os_RemoveAll d s1
                  else if IsRegular m then (fst (os_RemoveAll (d @ ''.json'') s1), None)
                  else (s1, None)))"

definition Update ::
  "('v \<Rightarrow> string \<times> error option) \<Rightarrow> string \<Rightarrow> string \<Rightarrow> 'v \<Rightarrow> state
     \<Rightarrow> state \<times> string \<times> error option" where
  "Update marshal collection ID v s =
     (case doDelete collection ID s of
        (s1, Some err) \<Rightarrow> (s1, ID, Some err)
      | (s1, None) \<Rightarrow> doWrite marshal collection ID v s1)"

definition Delete :: "string \<Rightarrow> string \<Rightarrow> state \<Rightarrow> state \<times> error option" where
  "Delete collection ID s = doDelete collection ID s"

text \<open>
  A proper file name: an element of a path that \<^verbatim>\<open>Clean\<close> keeps as it is.
\<close>

definition name_elem :: "string \<Rightarrow> bool" where
  "name_elem e = (e \<noteq> [] \<and> e \<noteq> ''.'' \<and> e \<noteq> ''..'' \<and> CHR ''/'' \<notin> set e)"

text \<open>
  The place of the final file of a write, as \<^verbatim>\<open>doWrite\<close> computes it, and what a reader
  finds at a place: the content of the regular file there, if there is one.
\<close>

definition fnlPath :: "state \<Rightarrow> string \<Rightarrow> string \<Rightarrow> path" where
  "fnlPath s collection ID = resolve (cwd s) (Join [Join [dir s, collection], ID @ ''.json''])"

definition content_at :: "state \<Rightarrow> path \<Rightarrow> string option" where
  "content_at s p = (case lookup (root s) p of Inr (File c) \<Rightarrow> Some c | _ \<Rightarrow> None)"

section \<open>Example states\<close>

text \<open>
  A small file system for the concrete instances below: the working directory is \<^verbatim>\<open>/srv\<close>, the
  driver was opened on \<^verbatim>\<open>db\<close>, and the collection \<^verbatim>\<open>users\<close> holds the record \<^verbatim>\<open>42\<close>.
\<close>

definition example_tree :: node where
  "example_tree =
     Dir [(''srv'', Dir [(''db'', Dir [(''users'', Dir [(''42.json'', File ''{}'')])])])]"

definition example_state :: "fault option list \<Rightarrow> state" where
  "example_state fs =
     \<lparr>dir = ''db'', mutexes = [], log = ConsoleLogger INFO, logged = [],
      root = example_tree, cwd = [''srv''], faults = fs\<rparr>"

text \<open>The same with any entries in the directory of the collection.\<close>

definition users_state :: "(string \<times> node) list \<Rightarrow> state" where
  "users_state es =
     \<lparr>dir = ''db'', mutexes = [], log = ConsoleLogger INFO, logged = [],
      root = Dir [(''srv'', Dir [(''db'', Dir [(''users'', Dir es)])])],
      cwd = [''srv''], faults = []\<rparr>"

text \<open>The same with more records and a directory inside the collection.\<close>

definition mixed_state :: state where
  "mixed_state =
     \<lparr>dir = ''db'', mutexes = [], log = ConsoleLogger INFO, logged = [],
      root = Dir [(''srv'', Dir [(''db'', Dir [(''users'',
               Dir [(''z.json'', File ''[]''), (''42.json'', File ''{}''), (''old'', Dir []),
                    (''7.json'', File ''7'')])])])],
      cwd = [''srv''], faults = []\<rparr>"

text \<open>
  An encoder for the instances: it puts a string between double quotes (and never fails).
\<close>

definition marshal_text :: "string \<Rightarrow> string \<times> error option" where
  "marshal_text v = (CHR ''\"'' # v @ ''\"'', None)"

text \<open>A decoder for the texts \<open>marshal_text\<close> produces, with the newline of the file.\<close>

definition unmarshal_text :: "string \<Rightarrow> string option" where
  "unmarshal_text b =
     (if 3 \<le> length b \<and> hd b = CHR ''\"'' \<and> last b = CHR 0x0A \<and> last (butlast b) = CHR ''\"''
      then Some (butlast (butlast (tl b)))
      else None)"

section \<open>Basic facts\<close>

subsection \<open>Path names\<close>

lemma elems_no_empty: "[] \<notin> set out \<Longrightarrow> [] \<notin> set (elems r out es)"
proof (induction r out es rule: elems.induct)
  case (1 rooted out)
  then show ?case by simp
next
  case (2 rooted out e es)
  then show ?case by (cases out; cases rooted) auto
qed

lemma join_sep_empty: "join_sep xs = [] \<Longrightarrow> xs = [] \<or> xs = [[]]"
  by (induction xs rule: join_sep.induct) auto

lemma Clean_nonempty: "Clean p \<noteq> []"
proof -
  have "join_sep (elems r [] es) = [] \<Longrightarrow> elems r [] es = []" for r es
    using elems_no_empty [of "[]" r es] join_sep_empty [of "elems r [] es"] by auto
  then show ?thesis
    by (simp add: Clean_def Let_def) blast
qed

lemma split_sep_nonempty: "split_sep s \<noteq> []"
  by (induction s) (auto split: list.splits)

lemma split_sep_noslash: "CHR ''/'' \<notin> set t \<Longrightarrow> split_sep t = [t]"
  by (induction t) auto

lemma split_sep_append: "split_sep (a @ CHR ''/'' # b) = split_sep a @ split_sep b"
proof (induction a)
  case Nil
  show ?case by simp
next
  case (Cons c a)
  obtain x xs where sp: "split_sep a = x # xs"
    using split_sep_nonempty [of a] by (cases "split_sep a") auto
  show ?case using Cons sp by simp
qed

lemma split_sep_suffix:
  "CHR ''/'' \<notin> set t \<Longrightarrow>
     split_sep (s @ t) = butlast (split_sep s) @ [last (split_sep s) @ t]"
proof (induction s)
  case Nil
  then show ?case by (simp add: split_sep_noslash)
next
  case (Cons c s)
  obtain x xs where sp: "split_sep s = x # xs"
    using split_sep_nonempty [of s] by (cases "split_sep s") auto
  show ?case using Cons sp by (cases xs) auto
qed

lemma split_sep_slashfree: "e \<in> set (split_sep s) \<Longrightarrow> CHR ''/'' \<notin> set e"
proof (induction s arbitrary: e)
  case Nil
  then show ?case by simp
next
  case (Cons c s)
  obtain x xs where sp: "split_sep s = x # xs"
    using split_sep_nonempty [of s] by (cases "split_sep s") auto
  have "CHR ''/'' \<notin> set x" "\<And>y. y \<in> set xs \<Longrightarrow> CHR ''/'' \<notin> set y"
    using Cons.IH sp by simp_all
  then show ?case using Cons.prems sp by (auto split: if_splits)
qed

lemma split_join:
  "xs \<noteq> [] \<Longrightarrow> \<forall>x\<in>set xs. CHR ''/'' \<notin> set x \<Longrightarrow> split_sep (join_sep xs) = xs"
proof (induction xs rule: join_sep.induct)
  case 1
  then show ?case by simp
next
  case (2 x)
  then show ?case by (simp add: split_sep_noslash)
next
  case (3 x y ys)
  then show ?case by (simp add: split_sep_append split_sep_noslash)
qed

lemma elems_append_rooted:
  "elems True out (es @ fs) = elems True (rev (elems True out es)) fs"
  by (induction es arbitrary: out) simp_all

lemma elems_append_relative:
  "elems False out (es @ fs) = elems False (rev (elems False out es)) fs"
  by (induction es arbitrary: out) simp_all

lemma elems_append: "elems r out (es @ fs) = elems r (rev (elems r out es)) fs"
  by (cases r) (simp_all add: elems_append_rooted elems_append_relative)

lemma elems_name: "name_elem e \<Longrightarrow> elems r out (es @ [e]) = elems r out es @ [e]"
  by (simp add: elems_append name_elem_def)

lemma elems_subset: "set (elems r out es) \<subseteq> set out \<union> set es"
proof (induction r out es rule: elems.induct)
  case (1 rooted out)
  then show ?case by simp
next
  case (2 rooted out e es)
  have "set (tl out) \<subseteq> set out" by (cases out) auto
  with 2 show ?case by (auto split: if_splits) blast+
qed


lemma elems_clean_relative:
  "\<forall>x\<in>set out. x \<noteq> [] \<and> x \<noteq> ''.'' \<Longrightarrow>
     elems r stk (elems False out es) = elems r stk (rev out @ es)"
proof (induction es arbitrary: out)
  case Nil
  show ?case by simp
next
  case (Cons e es)
  note pre = Cons.prems
  consider (dropped) "e = [] \<or> e = ''.''"
    | (popped) x xs where "e = ''..''" "out = x # xs" "x \<noteq> ''..''"
    | (kept) "e = ''..''" "out = [] \<or> hd out = ''..''"
    | (named) "e \<noteq> []" "e \<noteq> ''.''" "e \<noteq> ''..''"
    by (cases out) auto
  then show ?case
  proof cases
    case dropped
    have "elems r stk (elems False out (e # es)) = elems r stk (rev out @ es)"
      using dropped Cons.IH [OF pre] by auto
    also have "\<dots> = elems r stk (rev out @ e # es)"
      using dropped by (auto simp: elems_append [of r stk "rev out"])
    finally show ?thesis .
  next
    case popped
    have x: "x \<noteq> []" "x \<noteq> ''.''" and xs: "\<forall>y\<in>set xs. y \<noteq> [] \<and> y \<noteq> ''.''"
      using pre popped by auto
    have "elems r stk (elems False out (e # es)) = elems r stk (rev xs @ es)"
      using popped Cons.IH [OF xs] by simp
    also have "\<dots> = elems r stk (rev xs @ x # ''..'' # es)"
      using x popped(3) by (simp add: elems_append [of r stk "rev xs"])
    finally show ?thesis using popped by simp
  next
    case kept
    have p: "\<forall>y\<in>set (''..'' # out). y \<noteq> [] \<and> y \<noteq> ''.''" using pre by simp
    have "elems False out (e # es) = elems False (''..'' # out) es"
      using kept by auto
    then show ?thesis using Cons.IH [OF p] kept by simp
  next
    case named
    have p: "\<forall>y\<in>set (e # out). y \<noteq> [] \<and> y \<noteq> ''.''" using pre named by simp
    show ?thesis using Cons.IH [OF p] named by simp
  qed
qed

lemma elems_clean_rooted:
  "\<forall>x\<in>set out. x \<noteq> [] \<and> x \<noteq> ''.'' \<and> x \<noteq> ''..'' \<Longrightarrow>
     elems True [] (elems True out es) = elems True [] (rev out @ es)"
proof (induction es arbitrary: out)
  case Nil
  show ?case by simp
next
  case (Cons e es)
  note pre = Cons.prems
  consider (dropped) "e = [] \<or> e = ''.''"
    | (popped) x xs where "e = ''..''" "out = x # xs"
    | (atroot) "e = ''..''" "out = []"
    | (named) "e \<noteq> []" "e \<noteq> ''.''" "e \<noteq> ''..''"
    by (cases out) auto
  then show ?case
  proof cases
    case dropped
    have "elems True [] (elems True out (e # es)) = elems True [] (rev out @ es)"
      using dropped Cons.IH [OF pre] by auto
    also have "\<dots> = elems True [] (rev out @ e # es)"
      using dropped by (auto simp: elems_append [of True "[]" "rev out"])
    finally show ?thesis .
  next
    case popped
    have x: "x \<noteq> []" "x \<noteq> ''.''" "x \<noteq> ''..''"
      and xs: "\<forall>y\<in>set xs. y \<noteq> [] \<and> y \<noteq> ''.'' \<and> y \<noteq> ''..''"
      using pre popped by auto
    have "elems True [] (elems True out (e # es)) = elems True [] (rev xs @ es)"
      using popped x Cons.IH [OF xs] by simp
    also have "\<dots> = elems True [] (rev xs @ x # ''..'' # es)"
      using x by (simp add: elems_append [of True "[]" "rev xs"])
    finally show ?thesis using popped by simp
  next
    case atroot
    show ?thesis using atroot Cons.IH [of "[]"] by simp
  next
    case named
    have p: "\<forall>y\<in>set (e # out). y \<noteq> [] \<and> y \<noteq> ''.'' \<and> y \<noteq> ''..''"
      using pre named by simp
    show ?thesis using Cons.IH [OF p] named by simp
  qed
qed

lemma elems_out_slashfree:
  "e \<in> set (elems r [] (split_sep p)) \<Longrightarrow> e \<noteq> [] \<and> CHR ''/'' \<notin> set e"
  using elems_subset [of r "[]" "split_sep p"] elems_no_empty [of "[]" r "split_sep p"]
    split_sep_slashfree [of e p]
  by auto

lemma hd_join_sep:
  "xs \<noteq> [] \<Longrightarrow> \<forall>x\<in>set xs. x \<noteq> [] \<and> CHR ''/'' \<notin> set x \<Longrightarrow>
     join_sep xs \<noteq> [] \<and> hd (join_sep xs) \<noteq> CHR ''/''"
proof (induction xs rule: join_sep.induct)
  case 1
  then show ?case by simp
next
  case (2 x)
  then show ?case by (cases x) auto
next
  case (3 x y ys)
  then show ?case by (cases x) auto
qed

lemma rooted_Clean: "(hd (Clean p) = CHR ''/'') = (p \<noteq> [] \<and> hd p = CHR ''/'')"
proof (cases "p \<noteq> [] \<and> hd p = CHR ''/''")
  case True
  then show ?thesis by (simp add: Clean_def)
next
  case False
  let ?out = "elems False [] (split_sep p)"
  have "?out \<noteq> [] \<Longrightarrow> hd (join_sep ?out) \<noteq> CHR ''/''"
    using hd_join_sep [of ?out] elems_out_slashfree [of _ False p] by blast
  then show ?thesis using False by (auto simp: Clean_def Let_def)
qed

lemma resolve_Clean: "resolve wd (Clean p) = resolve wd p"
proof (cases "p = []")
  case True
  then show ?thesis by (simp add: Clean_def resolve_def)
next
  case False
  note ne = this
  show ?thesis
  proof (cases "hd p = CHR ''/''")
    case True
    let ?out = "elems True [] (split_sep p)"
    have cl: "Clean p = CHR ''/'' # join_sep ?out"
      using ne True by (simp add: Clean_def)
    have "elems True [] (split_sep (join_sep ?out)) = elems True [] ?out"
    proof (cases "?out = []")
      case True
      then show ?thesis by simp
    next
      case False
      then have "split_sep (join_sep ?out) = ?out"
        using elems_out_slashfree [of _ True p] by (intro split_join) auto
      then show ?thesis by simp
    qed
    also have "\<dots> = elems True [] (split_sep p)"
      using elems_clean_rooted [of "[]" "split_sep p"] by simp
    finally show ?thesis using True ne cl by (simp add: resolve_def)
  next
    case False
    let ?out = "elems False [] (split_sep p)"
    have nr: "hd (Clean p) \<noteq> CHR ''/''" using rooted_Clean [of p] False by simp
    have "elems True (rev wd) (split_sep (Clean p)) = elems True (rev wd) ?out"
    proof (cases "?out = []")
      case True
      then show ?thesis using ne False by (simp add: Clean_def)
    next
      case False
      then have "split_sep (join_sep ?out) = ?out"
        using elems_out_slashfree [of _ False p] by (intro split_join) auto
      then show ?thesis using ne \<open>hd p \<noteq> CHR ''/''\<close> False by (simp add: Clean_def)
    qed
    also have "\<dots> = elems True (rev wd) (split_sep p)"
      using elems_clean_relative [of "[]" True "rev wd" "split_sep p"] by simp
    finally show ?thesis using False nr by (simp add: resolve_def)
  qed
qed


lemma resolve_slash:
  "p \<noteq> [] \<Longrightarrow> resolve wd (p @ CHR ''/'' # q) = elems True (rev (resolve wd p)) (split_sep q)"
  by (simp add: resolve_def split_sep_append elems_append hd_append del: split_sep.simps)

lemma name_elem_suffix: "name_elem e \<Longrightarrow> CHR ''/'' \<notin> set t \<Longrightarrow> name_elem (e @ t)"
  by (auto simp: name_elem_def append_eq_Cons_conv Cons_eq_append_conv)

lemma name_elem_last_nonempty: "name_elem (last (split_sep p)) \<Longrightarrow> p \<noteq> []"
  by (auto simp: name_elem_def)

lemma resolve_suffix:
  assumes "name_elem (last (split_sep p))" and "CHR ''/'' \<notin> set t"
  shows "resolve wd (p @ t) = butlast (resolve wd p) @ [last (split_sep p) @ t]"
    and "resolve wd p = butlast (resolve wd p) @ [last (split_sep p)]"
proof -
  let ?bl = "butlast (split_sep p)" and ?e = "last (split_sep p)"
  have ne: "p \<noteq> []" using assms(1) by (rule name_elem_last_nonempty)
  have sp: "split_sep p = ?bl @ [?e]" using split_sep_nonempty [of p] by simp
  have spt: "split_sep (p @ t) = ?bl @ [?e @ t]" using assms(2) by (rule split_sep_suffix)
  have hd: "hd (p @ t) = hd p" using ne by simp
  have a: "resolve wd p = elems True (if hd p = CHR ''/'' then [] else rev wd) ?bl @ [?e]"
    using ne assms(1) elems_name [of ?e True _ ?bl] sp by (simp add: resolve_def)
  have b: "resolve wd (p @ t) =
      elems True (if hd p = CHR ''/'' then [] else rev wd) ?bl @ [?e @ t]"
    using ne hd name_elem_suffix [OF assms] elems_name [of "?e @ t" True _ ?bl] spt
    by (simp add: resolve_def)
  show "resolve wd p = butlast (resolve wd p) @ [last (split_sep p)]"
    using a by simp
  show "resolve wd (p @ t) = butlast (resolve wd p) @ [last (split_sep p) @ t]"
    using a b by simp
qed

lemma join_sep_snoc: "join_sep (xs @ [e]) @ t = join_sep (xs @ [e @ t])"
proof (induction xs)
  case Nil
  show ?case by simp
next
  case (Cons x xs)
  then show ?case by (cases xs) simp_all
qed

lemma Clean_suffix:
  assumes "name_elem (last (split_sep p))" and "CHR ''/'' \<notin> set t"
  shows "Clean (p @ t) = Clean p @ t"
proof -
  let ?bl = "butlast (split_sep p)" and ?e = "last (split_sep p)"
  have ne: "p \<noteq> []" using assms(1) by (rule name_elem_last_nonempty)
  have sp: "split_sep p = ?bl @ [?e]" using split_sep_nonempty [of p] by simp
  have spt: "split_sep (p @ t) = ?bl @ [?e @ t]" using assms(2) by (rule split_sep_suffix)
  have a: "elems r [] (split_sep p) = elems r [] ?bl @ [?e]" for r
    using elems_name [OF assms(1), of r "[]" ?bl] sp by simp
  have b: "elems r [] (split_sep (p @ t)) = elems r [] ?bl @ [?e @ t]" for r
    using elems_name [OF name_elem_suffix [OF assms], of r "[]" ?bl] spt by simp
  show ?thesis
    using ne by (simp add: Clean_def Let_def a b join_sep_snoc del: split_sep.simps)
qed

lemma resolve_Clean_suffix:
  assumes "name_elem (last (split_sep p))" and "CHR ''/'' \<notin> set t"
  shows "resolve wd (Clean p @ t) = butlast (resolve wd p) @ [last (split_sep p) @ t]"
  using Clean_suffix [OF assms] resolve_Clean [of wd "p @ t"] resolve_suffix(1) [OF assms, of wd]
  by simp

lemma last_split_slash: "last (split_sep (p @ CHR ''/'' # q)) = last (split_sep q)"
  by (simp add: split_sep_append split_sep_nonempty del: split_sep.simps)

lemma last_split_json: "last (split_sep (k @ ''.json'')) = last (split_sep k) @ ''.json''"
  using split_sep_suffix [of "''.json''" k] by simp

lemma name_elem_json: "name_elem (last (split_sep k) @ ''.json'')"
  using split_sep_slashfree [of "last (split_sep k)" k] split_sep_nonempty [of k]
  by (auto simp: name_elem_def append_eq_Cons_conv)

text \<open>The final and the temporary file of a write lie in one directory.\<close>

lemma fnlPath_shape:
  fixes d ID wd
  defines "fnl \<equiv> Join [d, ID @ ''.json'']"
  shows "\<exists>q. resolve wd fnl = q @ [last (split_sep ID) @ ''.json'']
           \<and> resolve wd (fnl @ ''.tmp'') = q @ [last (split_sep ID) @ ''.json.tmp'']"
proof -
  let ?w = "if d = [] then ID @ ''.json'' else d @ CHR ''/'' # ID @ ''.json''"
  have fnl: "fnl = Clean ?w" by (simp add: fnl_def Join_def)
  have l: "last (split_sep ?w) = last (split_sep ID) @ ''.json''"
    using last_split_slash [of d "ID @ ''.json''"] last_split_json [of ID] by simp
  have n: "name_elem (last (split_sep ?w))" unfolding l by (rule name_elem_json)
  have "resolve wd fnl = butlast (resolve wd ?w) @ [last (split_sep ID) @ ''.json'']"
    using resolve_suffix(2) [OF n, of "[]" wd] resolve_Clean [of wd ?w] fnl l by simp
  moreover have "resolve wd (fnl @ ''.tmp'') =
      butlast (resolve wd ?w) @ [last (split_sep ID) @ ''.json.tmp'']"
    using resolve_Clean_suffix [OF n, of "''.tmp''" wd] fnl l by simp
  ultimately show ?thesis by blast
qed

text \<open>
  \<^verbatim>\<open>Read\<close> and \<^verbatim>\<open>doWrite\<close> name the same file when the last element of the key is a proper
  name.
\<close>

lemma record_path:
  assumes "name_elem (last (split_sep ID))"
  shows "resolve wd (Join [d, c, ID] @ ''.json'') = resolve wd (Join [Join [d, c], ID @ ''.json''])"
    and "resolve wd (Join [d, c, ID] @ ''.json'')
           = butlast (resolve wd (Join [d, c, ID])) @ [last (split_sep ID) @ ''.json'']"
    and "resolve wd (Join [d, c, ID])
           = butlast (resolve wd (Join [d, c, ID])) @ [last (split_sep ID)]"
proof -
  have ne: "ID \<noteq> []" using assms by (rule name_elem_last_nonempty)
  let ?z = "join_sep (dropWhile (\<lambda>e. e = []) [d, c])"
  let ?y = "if ?z = [] then ID else ?z @ CHR ''/'' # ID"
  have rec: "Join [d, c, ID] = Clean ?y" using ne by (simp add: Join_def)
  have ly: "last (split_sep ?y) = last (split_sep ID)"
    using last_split_slash [of ?z ID] by simp
  have ny: "name_elem (last (split_sep ?y))" using assms ly by simp
  have r1: "resolve wd (Join [d, c, ID] @ ''.json'') = resolve wd (?y @ ''.json'')"
    using Clean_suffix [OF ny, of "''.json''"] resolve_Clean [of wd "?y @ ''.json''"] rec
    by simp
  have jz: "Join [d, c] = (if ?z = [] then [] else Clean ?z)" by (simp add: Join_def)
  have r2: "resolve wd (Join [Join [d, c], ID @ ''.json'']) = resolve wd (?y @ ''.json'')"
  proof (cases "?z = []")
    case True
    then show ?thesis using jz resolve_Clean [of wd "ID @ ''.json''"] by (simp add: Join_def)
  next
    case False
    then have "Join [Join [d, c], ID @ ''.json''] = Clean (Clean ?z @ CHR ''/'' # ID @ ''.json'')"
      using jz Clean_nonempty [of ?z] by (simp add: Join_def)
    then have "resolve wd (Join [Join [d, c], ID @ ''.json''])
        = elems True (rev (resolve wd ?z)) (split_sep (ID @ ''.json''))"
      using resolve_Clean resolve_slash [OF Clean_nonempty, of wd ?z] by simp
    then show ?thesis using False resolve_slash [OF False, of wd "ID @ ''.json''"] by simp
  qed
  show "resolve wd (Join [d, c, ID] @ ''.json'') = resolve wd (Join [Join [d, c], ID @ ''.json''])"
    using r1 r2 by simp
  show "resolve wd (Join [d, c, ID] @ ''.json'')
           = butlast (resolve wd (Join [d, c, ID])) @ [last (split_sep ID) @ ''.json'']"
    using resolve_Clean_suffix [OF ny, of "''.json''" wd] rec ly resolve_Clean [of wd ?y] by simp
  show "resolve wd (Join [d, c, ID])
           = butlast (resolve wd (Join [d, c, ID])) @ [last (split_sep ID)]"
    using resolve_suffix(2) [OF ny, of "[]" wd] rec ly resolve_Clean [of wd ?y] by simp
qed

lemma tmp_name_differs: "k @ ''.json.tmp'' \<noteq> k @ ''.json''"
  by simp

lemma Join_nonempty: "c \<noteq> [] \<Longrightarrow> Join [d, c] \<noteq> []"
  by (simp add: Join_def Clean_nonempty)

lemma split_sep_slash: "split_sep (CHR ''/'' # p) = [] # split_sep p"
  by simp

lemma last_split_Clean:
  assumes "name_elem (last (split_sep p))"
  shows "last (split_sep (Clean p)) = last (split_sep p)"
proof -
  let ?bl = "butlast (split_sep p)" and ?e = "last (split_sep p)"
  have ne: "p \<noteq> []" using assms by (rule name_elem_last_nonempty)
  have sp: "split_sep p = ?bl @ [?e]" using split_sep_nonempty [of p] by simp
  have out: "elems r [] (split_sep p) = elems r [] ?bl @ [?e]" for r
    using elems_name [OF assms, of r "[]" ?bl] sp by simp
  have sj: "split_sep (join_sep (elems r [] (split_sep p))) = elems r [] (split_sep p)" for r
    using elems_out_slashfree [of _ r p] out [of r] by (intro split_join) auto
  show ?thesis
    using ne sj out by (auto simp: Clean_def Let_def split_sep_slash simp del: split_sep.simps)
qed

lemma endsWithDot_last: "endsWithDot name \<Longrightarrow> last (split_sep name) = ''.''"
proof -
  have d: "split_sep ''.'' = [''.'']" by simp
  assume "endsWithDot name"
  then show ?thesis
    by (auto simp: endsWithDot_def suffix_def split_sep_append d simp del: split_sep.simps)
qed

lemma Clean_not_endsWithDot: "name_elem (last (split_sep p)) \<Longrightarrow> \<not> endsWithDot (Clean p)"
  using endsWithDot_last [of "Clean p"] last_split_Clean [of p] by (auto simp: name_elem_def)

lemma Join_name_empty: "name_elem c \<Longrightarrow> Join [c, []] = c"
proof -
  assume n: "name_elem c"
  then have "c \<noteq> []" "hd c \<noteq> CHR ''/''" "split_sep c = [c]"
    by (auto simp: name_elem_def split_sep_noslash) (cases c; auto)
  moreover have "split_sep (c @ ''/'') = [c, []]"
    using split_sep_append [of c "[]"] \<open>split_sep c = [c]\<close> by simp
  ultimately show ?thesis
    using n by (simp add: Join_def Clean_def name_elem_def del: split_sep.simps)
qed

text \<open>The directory of a collection with a proper name.\<close>

lemma collection_dir:
  assumes "name_elem c"
  shows "Join [d, c] \<noteq> []" and "\<not> endsWithDot (Join [d, c])"
    and "resolve wd (Join [d, c]) = butlast (resolve wd (Join [d, c])) @ [c]"
    and "last (split_sep (Join [d, c])) \<noteq> ''..''"
proof -
  let ?w = "if d = [] then c else d @ CHR ''/'' # c"
  have c: "c \<noteq> []" "split_sep c = [c]" using assms by (auto simp: name_elem_def split_sep_noslash)
  have j: "Join [d, c] = Clean ?w" using c by (simp add: Join_def)
  have l: "last (split_sep ?w) = c" using c last_split_slash [of d c] by simp
  then have n: "name_elem (last (split_sep ?w))" using assms by simp
  show "Join [d, c] \<noteq> []" using j Clean_nonempty by simp
  show "\<not> endsWithDot (Join [d, c])" using j Clean_not_endsWithDot [OF n] by simp
  show "last (split_sep (Join [d, c])) \<noteq> ''..''"
    using j l last_split_Clean [OF n] assms by (simp add: name_elem_def)
  show "resolve wd (Join [d, c]) = butlast (resolve wd (Join [d, c])) @ [c]"
    using resolve_suffix(2) [OF n, of "[]" wd] resolve_Clean [of wd ?w] j l by simp
qed

lemma Join3_nonempty: "ID \<noteq> [] \<Longrightarrow> Join [d, c, ID] \<noteq> []"
  by (simp add: Join_def Clean_nonempty)

lemma Join_suffix:
  assumes "name_elem (last (split_sep ID))" and "CHR ''/'' \<notin> set t"
  shows "Join [d, c, ID @ t] = Join [d, c, ID] @ t"
proof -
  have ne: "ID \<noteq> []" using assms(1) by (rule name_elem_last_nonempty)
  let ?z = "join_sep (dropWhile (\<lambda>e. e = []) [d, c])"
  let ?y = "if ?z = [] then ID else ?z @ CHR ''/'' # ID"
  have a: "Join [d, c, ID] = Clean ?y" using ne by (simp add: Join_def)
  have b: "Join [d, c, ID @ t] = Clean (?y @ t)" using ne by (simp add: Join_def)
  have "last (split_sep ?y) = last (split_sep ID)"
    using last_split_slash [of ?z ID] by simp
  then have "name_elem (last (split_sep ?y))" using assms(1) by simp
  from Clean_suffix [OF this assms(2)] a b show ?thesis by simp
qed

lemma not_endsWithDot_json:
  "\<not> endsWithDot (p @ ''.json'')" "last (split_sep (p @ ''.json'')) \<noteq> ''..''"
  using endsWithDot_last [of "p @ ''.json''"] last_split_json [of p] by auto

lemma users_42:
  "Join [''users'', ''42''] = ''users/42''" "Join [''users'', ''42.json''] = ''users/42.json''"
  "name_elem (last (split_sep ''42''))" "name_elem (last (split_sep ''42.json''))"
  "last (split_sep ''42'') = ''42''" "last (split_sep ''42.json'') = ''42.json''"
  by code_simp+

lemma Join_users_42:
  "Join [d, ''users/42''] = Join [d, ''users'', ''42'']"
  "Join [d, ''users/42.json''] = Join [d, ''users'', ''42''] @ ''.json''"
proof -
  show "Join [d, ''users/42''] = Join [d, ''users'', ''42'']" by (simp add: Join_def)
  have "Join [d, ''users/42.json''] = Join [d, ''users'', ''42'' @ ''.json'']"
    by (simp add: Join_def)
  then show "Join [d, ''users/42.json''] = Join [d, ''users'', ''42''] @ ''.json''"
    using Join_suffix [OF users_42(3), of "''.json''" d "''users''"] by simp
qed

subsection \<open>The tree\<close>

lemma map_of_update: "map_of (AList.update k v al) = (map_of al)(k \<mapsto> v)"
  by (rule update_conv')

lemma map_of_delete: "map_of (AList.delete k al) = (map_of al)(k := None)"
  by (rule delete_conv')

lemma lookup_below_missing: "lookup t p = Inl ENOENT \<Longrightarrow> lookup t (p @ q) = Inl ENOENT"
  by (induction t p rule: lookup.induct) (auto split: option.splits)

lemma lookup_sibling:
  "lookup t (q @ [a]) = Inr n \<Longrightarrow>
     lookup t (q @ [b]) = Inl ENOENT \<or> (\<exists>m. lookup t (q @ [b]) = Inr m)"
proof (induction q arbitrary: t)
  case Nil
  then show ?case by (cases t) (auto split: option.splits)
next
  case (Cons x q)
  then show ?case by (cases t) (auto split: option.splits)
qed

lemma lookup_sibling_missing:
  "lookup t (q @ [a]) = Inl ENOENT \<Longrightarrow>
     lookup t (q @ [b]) = Inl ENOENT \<or> (\<exists>m. lookup t (q @ [b]) = Inr m)"
proof (induction q arbitrary: t)
  case Nil
  then show ?case by (cases t) (auto split: option.splits)
next
  case (Cons x q)
  then show ?case by (cases t) (auto split: option.splits)
qed

lemma lookup_empty_dir: "lookup (Dir []) p \<noteq> Inr (File c)"
  by (cases p) simp_all

lemma mkdirs_files:
  "mkdirs t d = Inr t' \<Longrightarrow> (lookup t' p = Inr (File c)) = (lookup t p = Inr (File c))"
proof (induction t d arbitrary: t' p rule: mkdirs.induct)
  case (1 c p)
  then show ?case by simp
next
  case (2 es)
  then show ?case by simp
next
  case (3 es x xs)
  let ?sub = "case map_of es x of None \<Rightarrow> Dir [] | Some n \<Rightarrow> n"
  from "3.prems" obtain n' where sub: "mkdirs ?sub xs = Inr n'"
    and t': "t' = Dir (AList.update x n' es)"
    by (auto split: sum.splits)
  show ?case
  proof (cases p)
    case Nil
    then show ?thesis using t' by simp
  next
    case (Cons y ys)
    show ?thesis
    proof (cases "y = x")
      case True
      have "(lookup n' ys = Inr (File c)) = (lookup ?sub ys = Inr (File c))"
        using "3.IH" [OF sub] .
      then show ?thesis
        using Cons True t' lookup_empty_dir [of ys c]
        by (auto simp: map_of_update split: option.splits)
    next
      case False
      then show ?thesis using Cons t' by (simp add: map_of_update)
    qed
  qed
qed

lemma place_lookup: "place t p n = Inr t' \<Longrightarrow> lookup t' p = Inr n"
  by (induction t p n arbitrary: t' rule: place.induct)
     (auto simp: map_of_update split: if_splits option.splits sum.splits)

lemma place_sibling:
  "place t (q @ [a]) n = Inr t' \<Longrightarrow> a \<noteq> b \<Longrightarrow> lookup t' (q @ [b]) = lookup t (q @ [b])"
proof (induction q arbitrary: t t')
  case Nil
  then show ?case by (cases t) (auto simp: map_of_update)
next
  case (Cons x q)
  then show ?case
    by (cases t) (auto simp: map_of_update split: option.splits sum.splits)
qed

lemma unlink_lookup: "unlink t p = Inr t' \<Longrightarrow> lookup t' (p @ q) = Inl ENOENT"
  by (induction t p arbitrary: t' rule: unlink.induct)
     (auto simp: map_of_update map_of_delete split: if_splits option.splits sum.splits)

lemma unlink_sibling:
  "unlink t (q @ [a]) = Inr t' \<Longrightarrow> a \<noteq> b \<Longrightarrow> lookup t' (q @ [b]) = lookup t (q @ [b])"
proof (induction q arbitrary: t t')
  case Nil
  then show ?case by (cases t) (auto simp: map_of_delete)
next
  case (Cons x q)
  then show ?case
    by (cases t) (auto simp: map_of_update split: option.splits sum.splits)
qed

lemma unlink_exists: "lookup t p = Inr n \<Longrightarrow> p \<noteq> [] \<Longrightarrow> \<exists>t'. unlink t p = Inr t'"
  by (induction t p arbitrary: n rule: unlink.induct) (fastforce split: option.splits)+

lemma create_file_lookup: "create_file t p data = Inr t' \<Longrightarrow> lookup t' p = Inr (File data)"
  by (auto simp: create_file_def dest: place_lookup split: sum.splits node.splits if_splits)

lemma create_file_sibling:
  "create_file t (q @ [a]) data = Inr t' \<Longrightarrow> a \<noteq> b \<Longrightarrow>
     lookup t' (q @ [b]) = lookup t (q @ [b])"
  by (auto simp: create_file_def dest: place_sibling split: sum.splits node.splits if_splits)

lemma rename_node_sibling:
  assumes "rename_node t (q @ [a]) (q @ [b]) = Inr t'" and "a \<noteq> b"
    and "lookup t (q @ [a]) = Inr n"
  shows "lookup t' (q @ [b]) = Inr n"
proof -
  from assms obtain t1 where p: "place t (q @ [b]) n = Inr t1" and u: "unlink t1 (q @ [a]) = Inr t'"
    by (auto simp: rename_node_def split: sum.splits node.splits if_splits)
  from unlink_sibling [OF u assms(2)] place_lookup [OF p] show ?thesis by simp
qed

text \<open>
  When a path does not exist, the path with a suffix appended to its last element exists or
  does not exist; no other error can come up.
\<close>

lemma lookup_with_suffix:
  assumes "p \<noteq> []" and "CHR ''/'' \<notin> set t" and "name_elem (last (split_sep p) @ t)"
    and "lookup T (resolve wd p) = Inl ENOENT"
  shows "lookup T (resolve wd (p @ t)) = Inl ENOENT \<or> (\<exists>m. lookup T (resolve wd (p @ t)) = Inr m)"
proof -
  let ?bl = "butlast (split_sep p)" and ?e = "last (split_sep p)"
  define stk where "stk = (if hd p = CHR ''/'' then [] else rev wd)"
  let ?B = "elems True stk ?bl"
  have sp: "split_sep p = ?bl @ [?e]" using split_sep_nonempty [of p] by simp
  have spt: "split_sep (p @ t) = ?bl @ [?e @ t]" using assms(2) by (rule split_sep_suffix)
  have r1: "resolve wd p = elems True stk (split_sep p)"
    using assms(1) by (simp add: resolve_def stk_def)
  have r2: "resolve wd (p @ t) = elems True stk (split_sep (p @ t))"
    using assms(1) by (simp add: resolve_def stk_def)
  have rt: "resolve wd (p @ t) = ?B @ [?e @ t]"
    using elems_name [OF assms(3), of True stk ?bl] spt r2 by simp
  have rp: "resolve wd p = elems True (rev ?B) [?e]"
    using sp elems_append [of True stk ?bl "[?e]"] r1 by simp
  consider (same) "resolve wd p = ?B" | (up) "?B \<noteq> []" "resolve wd p = butlast ?B"
    | (down) "resolve wd p = ?B @ [?e]"
    using rp by (cases "rev ?B") (auto simp: butlast_append split: if_splits)
  then show ?thesis
  proof cases
    case same
    then show ?thesis using assms(4) rt lookup_below_missing [of T ?B "[?e @ t]"] by simp
  next
    case up
    have "lookup T (butlast ?B @ [last ?B, ?e @ t]) = Inl ENOENT"
      using assms(4) up(2) lookup_below_missing [of T "butlast ?B" "[last ?B, ?e @ t]"] by simp
    moreover have "butlast ?B @ [last ?B, ?e @ t] = ?B @ [?e @ t]"
      by (metis up(1) append_butlast_last_id append.assoc append_Cons append_Nil)
    ultimately have "lookup T (?B @ [?e @ t]) = Inl ENOENT" by (simp only:)
    then show ?thesis using rt by (simp only:) simp
  next
    case down
    then show ?thesis using assms(4) rt lookup_sibling_missing [of T ?B ?e "?e @ t"] by simp
  qed
qed

subsection \<open>The calls of the os and ioutil packages\<close>

lemma next_fault_nil: "faults s = [] \<Longrightarrow> next_fault s = (s, None)"
  by (simp add: next_fault_def)

lemma next_fault_frame:
  "next_fault s = (s1, f) \<Longrightarrow>
     root s1 = root s \<and> cwd s1 = cwd s \<and> dir s1 = dir s \<and> mutexes s1 = mutexes s
     \<and> logged s1 = logged s \<and> log s1 = log s"
  by (cases "faults s") (auto simp: next_fault_def)

lemma os_Stat_frame:
  assumes "os_Stat p s = (s1, file, err)"
  shows "root s1 = root s \<and> cwd s1 = cwd s \<and> dir s1 = dir s \<and> mutexes s1 = mutexes s
     \<and> logged s1 = logged s \<and> log s1 = log s"
proof -
  obtain s' f where nf: "next_fault s = (s', f)" by (cases "next_fault s")
  note fr = next_fault_frame [OF nf]
  have "s1 = s'"
    using assms by (simp add: os_Stat_def nf split: option.splits if_splits sum.splits)
  with fr show ?thesis by simp
qed

lemma os_Stat_fails:
  assumes "lookup (root s) (resolve (cwd s) p) = Inl e"
    and "os_Stat p s = (s1, file, err)"
  shows "file = None \<and> err \<noteq> None"
proof -
  obtain s' f where nf: "next_fault s = (s', f)" by (cases "next_fault s")
  note fr = next_fault_frame [OF nf]
  have "lookup (root s') (resolve (cwd s') p) = Inl e" using assms(1) fr by simp
  then show ?thesis
    using assms(2) by (auto simp: os_Stat_def nf split: option.splits if_splits)
qed

lemma os_MkdirAll_frame:
  assumes "os_MkdirAll name s = (s1, err)"
  shows "cwd s1 = cwd s \<and> dir s1 = dir s"
    and "(lookup (root s1) p = Inr (File c)) = (lookup (root s) p = Inr (File c))"
proof -
  obtain s' f where nf: "next_fault s = (s', f)" by (cases "next_fault s")
  note fr = next_fault_frame [OF nf]
  show "cwd s1 = cwd s \<and> dir s1 = dir s"
    using assms fr by (auto simp: os_MkdirAll_def nf split: option.splits if_splits sum.splits)
  show "(lookup (root s1) p = Inr (File c)) = (lookup (root s) p = Inr (File c))"
    using assms fr
    by (auto simp: os_MkdirAll_def nf mkdirs_files split: option.splits if_splits sum.splits)
qed

lemma os_WriteFile_frame:
  assumes "os_WriteFile name data s = (s1, err)"
  shows "cwd s1 = cwd s \<and> dir s1 = dir s"
proof -
  obtain s' f where nf: "next_fault s = (s', f)" by (cases "next_fault s")
  note fr = next_fault_frame [OF nf]
  show ?thesis
    using assms fr
    by (auto simp: os_WriteFile_def nf split: option.splits fault.splits if_splits sum.splits)
qed

lemma os_WriteFile_sibling:
  assumes "os_WriteFile name data s = (s1, err)"
    and "resolve (cwd s) name = q @ [a]" and "a \<noteq> b"
  shows "lookup (root s1) (q @ [b]) = lookup (root s) (q @ [b])"
proof -
  obtain s' f where nf: "next_fault s = (s', f)" by (cases "next_fault s")
  note fr = next_fault_frame [OF nf]
  have "create_file (root s) (q @ [a]) d = Inr t \<Longrightarrow>
      lookup t (q @ [b]) = lookup (root s) (q @ [b])" for d t
    using create_file_sibling [of "root s" q a d t b] assms(3) by simp
  then show ?thesis
    using assms fr
    by (auto simp: os_WriteFile_def nf split: option.splits fault.splits if_splits sum.splits)
qed

lemma os_WriteFile_ok:
  assumes "os_WriteFile name data s = (s1, None)"
  shows "lookup (root s1) (resolve (cwd s) name) = Inr (File data)"
proof -
  obtain s' f where nf: "next_fault s = (s', f)" by (cases "next_fault s")
  note fr = next_fault_frame [OF nf]
  show ?thesis
    using assms fr
    by (auto simp: os_WriteFile_def nf create_file_lookup
        split: option.splits fault.splits if_splits sum.splits)
qed

lemma os_Rename_frame:
  assumes "os_Rename old new s = (s1, err)"
  shows "cwd s1 = cwd s \<and> dir s1 = dir s"
proof -
  obtain s' f where nf: "next_fault s = (s', f)" by (cases "next_fault s")
  note fr = next_fault_frame [OF nf]
  show ?thesis
    using assms fr by (auto simp: os_Rename_def nf split: option.splits if_splits sum.splits)
qed

lemma os_Rename_failed:
  assumes "os_Rename old new s = (s1, Some e)"
  shows "root s1 = root s"
proof -
  obtain s' f where nf: "next_fault s = (s', f)" by (cases "next_fault s")
  note fr = next_fault_frame [OF nf]
  show ?thesis
    using assms fr by (auto simp: os_Rename_def nf split: option.splits if_splits sum.splits)
qed

lemma os_Rename_ok:
  assumes "os_Rename old new s = (s1, None)"
    and "resolve (cwd s) old = q @ [a]" and "resolve (cwd s) new = q @ [b]" and "a \<noteq> b"
    and "lookup (root s) (q @ [a]) = Inr n"
  shows "lookup (root s1) (q @ [b]) = Inr n"
proof -
  obtain s' f where nf: "next_fault s = (s', f)" by (cases "next_fault s")
  note fr = next_fault_frame [OF nf]
  have "rename_node (root s) (q @ [a]) (q @ [b]) = Inr t \<Longrightarrow> lookup t (q @ [b]) = Inr n" for t
    using rename_node_sibling [of "root s" q a b t n] assms(4,5) by simp
  then show ?thesis
    using assms fr by (auto simp: os_Rename_def nf split: option.splits if_splits sum.splits)
qed

lemma os_Stat_quiet:
  "faults s = [] \<Longrightarrow> name \<noteq> [] \<Longrightarrow>
     os_Stat name s =
       (case lookup (root s) (resolve (cwd s) name) of
          Inl e \<Rightarrow> (s, None, Some (OSError e))
        | Inr n \<Rightarrow> (s, Some (Mode n), None))"
  by (simp add: os_Stat_def next_fault_nil)

lemma os_ReadFile_quiet:
  "faults s = [] \<Longrightarrow> name \<noteq> [] \<Longrightarrow>
     os_ReadFile name s =
       (case lookup (root s) (resolve (cwd s) name) of
          Inl e \<Rightarrow> (s, [], Some (OSError e))
        | Inr (Dir es) \<Rightarrow> (s, [], Some (OSError EISDIR))
        | Inr (File c) \<Rightarrow> (s, c, None))"
  by (simp add: os_ReadFile_def next_fault_nil)

lemma os_ReadDir_quiet:
  "faults s = [] \<Longrightarrow> name \<noteq> [] \<Longrightarrow>
     os_ReadDir name s =
       (case lookup (root s) (resolve (cwd s) name) of
          Inl e \<Rightarrow> (s, [], Some (OSError e))
        | Inr (File c) \<Rightarrow> (s, [], Some (OSError ENOTDIR))
        | Inr (Dir es) \<Rightarrow> (s, sort (remdups (map fst es)), None))"
  by (simp add: os_ReadDir_def next_fault_nil)

lemma os_RemoveAll_quiet:
  "faults s = [] \<Longrightarrow> name \<noteq> [] \<Longrightarrow> \<not> endsWithDot name \<Longrightarrow> resolve (cwd s) name \<noteq> [] \<Longrightarrow>
     last (split_sep name) \<noteq> ''..'' \<Longrightarrow>
     os_RemoveAll name s =
       (case unlink (root s) (resolve (cwd s) name) of
          Inl e \<Rightarrow> (s, Some (OSError e))
        | Inr t \<Rightarrow> (s\<lparr>root := t\<rparr>, None))"
  by (simp add: os_RemoveAll_def next_fault_nil Let_def)

subsection \<open>The driver\<close>

lemma stat_fails:
  assumes "lookup (root s) (resolve (cwd s) p) = Inl e1"
    and "lookup (root s) (resolve (cwd s) (p @ ''.json'')) = Inl e2"
    and "stat p s = (s1, file, err)"
  shows "file = None \<and> err \<noteq> None \<and> root s1 = root s"
proof -
  obtain s' f' e' where a: "os_Stat p s = (s', f', e')" by (cases "os_Stat p s") auto
  note fr = os_Stat_frame [OF a]
  show ?thesis
  proof (cases "IsNotExist e'")
    case True
    then have b: "os_Stat (p @ ''.json'') s' = (s1, file, err)"
      using assms(3) a by (simp add: stat_def)
    have "lookup (root s') (resolve (cwd s') (p @ ''.json'')) = Inl e2"
      using assms(2) fr by simp
    from os_Stat_fails [OF this b] os_Stat_frame [OF b] fr show ?thesis by simp
  next
    case False
    then have "s1 = s'" "file = f'" "err = e'" using assms(3) a by (simp_all add: stat_def)
    with os_Stat_fails [OF assms(1) a] fr show ?thesis by simp
  qed
qed

lemma getMutex_frame:
  "root (getMutex c s) = root s \<and> cwd (getMutex c s) = cwd s \<and> dir (getMutex c s) = dir s
     \<and> faults (getMutex c s) = faults s \<and> logged (getMutex c s) = logged s"
  by (simp add: getMutex_def)

lemma Info_frame:
  "root (Info f a s) = root s \<and> cwd (Info f a s) = cwd s \<and> dir (Info f a s) = dir s
     \<and> faults (Info f a s) = faults s"
  by (simp add: Info_def)

lemma content_at_eq:
  "content_at s1 p = content_at s p \<longleftrightarrow>
     (\<forall>c. (lookup (root s1) p = Inr (File c)) = (lookup (root s) p = Inr (File c)))"
  by (auto simp: content_at_def split: sum.splits node.splits)

lemma doWrite_tmp_result:
  assumes "doWrite_tmp marshal collection ID v s = (s2, r)"
  shows "cwd s2 = cwd s \<and> dir s2 = dir s"
    and "content_at s2 (fnlPath s collection ID) = content_at s (fnlPath s collection ID)"
    and "r = Inr (tmp, fnl) \<Longrightarrow>
           tmp = fnl @ ''.tmp'' \<and> fnl = Join [Join [dir s, collection], ID @ ''.json'']
           \<and> snd (marshal v) = None
           \<and> lookup (root s2) (resolve (cwd s) tmp) = Inr (File (fst (marshal v) @ [CHR 0x0A]))"
proof -
  let ?s0 = "getMutex collection s"
  let ?d = "Join [dir s, collection]"
  let ?fnl = "Join [?d, ID @ ''.json'']"
  let ?tmp = "?fnl @ ''.tmp''"
  obtain q where q1: "resolve (cwd s) ?fnl = q @ [last (split_sep ID) @ ''.json'']"
    and q2: "resolve (cwd s) ?tmp = q @ [last (split_sep ID) @ ''.json.tmp'']"
    using fnlPath_shape [of "cwd s" ?d ID] by blast
  obtain s1 e1 where mk: "os_MkdirAll ?d ?s0 = (s1, e1)" by (cases "os_MkdirAll ?d ?s0")
  note mkf = os_MkdirAll_frame [OF mk]
  have c1: "content_at s1 (fnlPath s collection ID) = content_at s (fnlPath s collection ID)"
    using mkf(2) by (simp add: content_at_eq getMutex_frame)
  have w1: "cwd s1 = cwd s" "dir s1 = dir s" using mkf(1) by (simp_all add: getMutex_frame)
  obtain b me where ma: "marshal v = (b, me)" by (cases "marshal v")
  obtain s2' e2 where wr: "os_WriteFile ?tmp (b @ [CHR 0x0A]) s1 = (s2', e2)"
    by (cases "os_WriteFile ?tmp (b @ [CHR 0x0A]) s1")
  note wrf = os_WriteFile_frame [OF wr]
  have "lookup (root s2') (q @ [last (split_sep ID) @ ''.json''])
      = lookup (root s1) (q @ [last (split_sep ID) @ ''.json''])"
    using q2 w1 os_WriteFile_sibling [OF wr _ tmp_name_differs, of q "last (split_sep ID)"]
    by simp
  then have c2: "content_at s2' (fnlPath s collection ID) = content_at s (fnlPath s collection ID)"
    using c1 q1 by (simp add: content_at_def fnlPath_def)
  have un: "doWrite_tmp marshal collection ID v s =
      (case e1 of Some err \<Rightarrow> (s1, Inl err)
       | None \<Rightarrow> (case me of Some err \<Rightarrow> (s1, Inl err)
           | None \<Rightarrow> (case e2 of Some err \<Rightarrow> (s2', Inl err)
               | None \<Rightarrow> (s2', Inr (?tmp, ?fnl)))))"
    using mk ma wr by (simp add: doWrite_tmp_def Let_def getMutex_frame split: option.splits)
  show "cwd s2 = cwd s \<and> dir s2 = dir s"
    using assms un w1 wrf by (auto split: option.splits)
  show "content_at s2 (fnlPath s collection ID) = content_at s (fnlPath s collection ID)"
    using assms un c1 c2 by (auto split: option.splits)
  show "tmp = fnl @ ''.tmp'' \<and> fnl = Join [Join [dir s, collection], ID @ ''.json'']
           \<and> snd (marshal v) = None
           \<and> lookup (root s2) (resolve (cwd s) tmp) = Inr (File (fst (marshal v) @ [CHR 0x0A]))"
    if "r = Inr (tmp, fnl)"
  proof -
    from that assms un have *: "e1 = None" "me = None" "e2 = None" "s2 = s2'" "tmp = ?tmp" "fnl = ?fnl"
      by (auto split: option.splits)
    then show ?thesis using os_WriteFile_ok [of ?tmp "b @ [CHR 0x0A]" s1 s2'] wr ma w1 by simp
  qed
qed

lemma stat_quiet:
  "faults s = [] \<Longrightarrow> name \<noteq> [] \<Longrightarrow>
     stat name s =
       (case lookup (root s) (resolve (cwd s) name) of
          Inr n \<Rightarrow> (s, Some (Mode n), None)
        | Inl e \<Rightarrow>
            if e = ENOENT then
              (case lookup (root s) (resolve (cwd s) (name @ ''.json'')) of
                 Inl e' \<Rightarrow> (s, None, Some (OSError e'))
               | Inr n \<Rightarrow> (s, Some (Mode n), None))
            else (s, None, Some (OSError e)))"
  by (simp add: stat_def os_Stat_quiet IsNotExist_def split: sum.splits)

lemma ReadAll_missing:
  assumes "collection \<noteq> []" and "faults s = []"
    and "lookup (root s) (resolve (cwd s) (Join [dir s, collection])) = Inl ENOENT"
  shows "ReadAll collection s = (s, [], Some (OSError ENOENT))"
proof -
  let ?d = "Join [dir s, collection]"
  have ne: "?d \<noteq> []" using assms(1) by (rule Join_nonempty)
  have "lookup (root s) (resolve (cwd s) (?d @ ''.json'')) = Inl ENOENT
      \<or> (\<exists>m. lookup (root s) (resolve (cwd s) (?d @ ''.json'')) = Inr m)"
    using ne assms(3) name_elem_json [of ?d] by (intro lookup_with_suffix) simp_all
  then show ?thesis
    using assms ne
    by (auto simp: ReadAll_def Let_def stat_quiet os_ReadDir_quiet)
qed

lemma readFiles_append:
  "readFiles d (xs @ ys) records s =
     (case readFiles d xs records s of
        (s1, rs, Some e) \<Rightarrow> (s1, [], Some e)
      | (s1, rs, None) \<Rightarrow> readFiles d ys rs s1)"
  by (induction xs arbitrary: records s) (auto split: prod.splits option.splits)

lemma Write_ok:
  assumes "Write marshal collection identifier v s = (s', key, None)"
  shows "key = identifier \<and> snd (marshal v) = None
       \<and> content_at s' (fnlPath s collection identifier) = Some (fst (marshal v) @ [CHR 0x0A])"
    and "cwd s' = cwd s \<and> dir s' = dir s"
    and "collection \<noteq> [] \<and> identifier \<noteq> []"
proof -
  from assms have dw: "doWrite marshal collection identifier v s = (s', key, None)"
    by (auto simp: Write_def split: if_splits)
  obtain s2 r where t: "doWrite_tmp marshal collection identifier v s = (s2, r)"
    by (cases "doWrite_tmp marshal collection identifier v s")
  from dw t obtain tmp fnl where r: "r = Inr (tmp, fnl)"
    by (cases r) (auto simp: doWrite_def)
  note res = doWrite_tmp_result [OF t]
  from res(3) [OF r] have tmp: "tmp = fnl @ ''.tmp''"
    and fnl: "fnl = Join [Join [dir s, collection], identifier @ ''.json'']"
    and ma: "snd (marshal v) = None"
    and lt: "lookup (root s2) (resolve (cwd s) tmp) = Inr (File (fst (marshal v) @ [CHR 0x0A]))"
    by blast+
  obtain q where q1: "resolve (cwd s) fnl = q @ [last (split_sep identifier) @ ''.json'']"
    and q2: "resolve (cwd s) tmp = q @ [last (split_sep identifier) @ ''.json.tmp'']"
    using fnlPath_shape [of "cwd s" "Join [dir s, collection]" "identifier"] tmp fnl by auto
  let ?s2 = "Info ''done creating: %s'' [identifier] s2"
  have rn: "os_Rename tmp fnl ?s2 = (s', None)" and key: "key = identifier"
    using dw t r by (auto simp: doWrite_def split: prod.splits)
  have "lookup (root s') (q @ [last (split_sep identifier) @ ''.json''])
      = Inr (File (fst (marshal v) @ [CHR 0x0A]))"
    using q1 q2 lt res(1)
      os_Rename_ok [OF rn _ _ tmp_name_differs, of q "last (split_sep identifier)"]
    by (simp add: Info_frame)
  then show "key = identifier \<and> snd (marshal v) = None
       \<and> content_at s' (fnlPath s collection identifier) = Some (fst (marshal v) @ [CHR 0x0A])"
    using key ma q1 fnl by (simp add: content_at_def fnlPath_def)
  show "cwd s' = cwd s \<and> dir s' = dir s"
    using os_Rename_frame [OF rn] res(1) by (simp add: Info_frame)
  show "collection \<noteq> [] \<and> identifier \<noteq> []"
    using assms by (auto simp: Write_def split: if_splits)
qed

text \<open>A stored record is found by \<^verbatim>\<open>stat\<close> and read under its key.\<close>

lemma stat_record:
  assumes "faults s = []" and "name_elem (last (split_sep ID))"
    and "lookup (root s) (resolve (cwd s) (Join [d, c, ID] @ ''.json'')) = Inr n"
  shows "\<exists>m. stat (Join [d, c, ID]) s = (s, Some m, None)"
proof -
  let ?r = "Join [d, c, ID]"
  have ne: "?r \<noteq> []" using assms(2) by (intro Join3_nonempty name_elem_last_nonempty)
  note rp = record_path [OF assms(2), of "cwd s" d c]
  have "lookup (root s) (butlast (resolve (cwd s) ?r) @ [last (split_sep ID) @ ''.json'']) = Inr n"
    using assms(3) rp(2) by simp
  from lookup_sibling [OF this, of "last (split_sep ID)"]
  have "lookup (root s) (resolve (cwd s) ?r) = Inl ENOENT
      \<or> (\<exists>m. lookup (root s) (resolve (cwd s) ?r) = Inr m)"
    using rp(3) by simp
  then show ?thesis using assms(1,3) ne by (auto simp: stat_quiet)
qed

lemma Read_record:
  assumes "faults s = []" and "name_elem (last (split_sep ID))" and "collection \<noteq> []"
    and "lookup (root s) (resolve (cwd s) (Join [dir s, collection, ID] @ ''.json''))
           = Inr (File content)"
  shows "Read collection ID s = (s, content, None)"
proof -
  have ne: "ID \<noteq> []" using assms(2) by (rule name_elem_last_nonempty)
  obtain m where "stat (Join [dir s, collection, ID]) s = (s, Some m, None)"
    using stat_record [OF assms(1,2,4)] by blast
  then show ?thesis
    using assms ne by (simp add: Read_def Let_def os_ReadFile_quiet)
qed

lemma content_at_Some:
  "content_at s p = Some c \<longleftrightarrow> lookup (root s) p = Inr (File c)"
  by (auto simp: content_at_def split: sum.splits node.splits)

text \<open>For proper names the final file is the key with the extension, in the collection, in the root.\<close>

lemma fnlPath_plain:
  assumes "dir s \<noteq> []" and "name_elem c" and "name_elem k"
  shows "fnlPath s c k = resolve (cwd s) (dir s) @ [c, k @ ''.json'']"
proof -
  let ?wd = "cwd s" and ?d = "dir s" and ?x = "k @ ''.json''"
  have c: "c \<noteq> []" "split_sep c = [c]" using assms(2) by (auto simp: name_elem_def split_sep_noslash)
  have x: "name_elem ?x" "split_sep ?x = [?x]"
    using assms(3) name_elem_suffix [of k "''.json''"] by (auto simp: name_elem_def split_sep_noslash)
  have j: "Join [?d, c] = Clean (?d @ CHR ''/'' # c)" using assms(1) by (simp add: Join_def)
  have jj: "Join [Join [?d, c], ?x] = Clean (Clean (?d @ CHR ''/'' # c) @ CHR ''/'' # ?x)"
    using j Clean_nonempty [of "?d @ CHR ''/'' # c"] by (simp add: Join_def)
  have "resolve ?wd (Join [Join [?d, c], ?x])
      = elems True (rev (resolve ?wd (?d @ CHR ''/'' # c))) (split_sep ?x)"
    using jj resolve_Clean resolve_slash [OF Clean_nonempty, of ?wd "?d @ CHR ''/'' # c" ?x]
    by simp
  also have "\<dots> = resolve ?wd (?d @ CHR ''/'' # c) @ [?x]"
    using x elems_name [OF x(1), of True _ "[]"] by simp
  also have "resolve ?wd (?d @ CHR ''/'' # c) = resolve ?wd ?d @ [c]"
    using resolve_slash [OF assms(1), of ?wd c] c elems_name [OF assms(2), of True _ "[]"] by simp
  finally show ?thesis by (simp add: fnlPath_def)
qed

section \<open>The claims\<close>

text \<open>
  Claim C4, as amended. When neither the path of the key nor that path with the extension exists, \<^verbatim>\<open>Update\<close>
  returns the key with the error of the delete phase, \<^verbatim>\<open>unable to find directory\<close>, in the state
  the delete phase left: the write phase is not entered, and the file system is the one before
  the call, so no file was created. This holds whatever failures the environment injects.
\<close>

theorem Update_on_missing:
  assumes "lookup (root s) (resolve (cwd s) (Join [dir s, Join [collection, ID]])) = Inl e1"
    and "lookup (root s) (resolve (cwd s) (Join [dir s, Join [collection, ID]] @ ''.json'')) = Inl e2"
  shows "Update marshal collection ID v s =
           (fst (doDelete collection ID s), ID,
            Some (Errorf ''unable to find directory %q'' [Join [collection, ID]]))
       \<and> root (fst (doDelete collection ID s)) = root s"
proof -
  let ?s0 = "getMutex collection s"
  let ?d = "Join [dir ?s0, Join [collection, ID]]"
  obtain s1 fi err where st: "stat ?d ?s0 = (s1, fi, err)"
    by (cases "stat ?d ?s0") auto
  have "fi = None \<and> err \<noteq> None \<and> root s1 = root ?s0"
    using assms by (intro stat_fails [OF _ _ st]) (simp_all add: getMutex_frame)
  then have "doDelete collection ID s =
      (s1, Some (Errorf ''unable to find directory %q'' [Join [collection, ID]]))"
    and "root s1 = root s"
    using st by (simp_all add: doDelete_def Let_def getMutex_frame)
  then show ?thesis by (simp add: Update_def)
qed

theorem Update_on_missing_witness:
  "lookup (root (example_state [])) (resolve (cwd (example_state []))
       (Join [dir (example_state []), Join [''users'', ''7'']])) = Inl ENOENT
   \<and> lookup (root (example_state [])) (resolve (cwd (example_state []))
       (Join [dir (example_state []), Join [''users'', ''7'']] @ ''.json'')) = Inl ENOENT
   \<and> Update marshal_text ''users'' ''7'' ''v'' (example_state []) =
       (fst (doDelete ''users'' ''7'' (example_state [])), ''7'',
        Some (Errorf ''unable to find directory %q'' [Join [''users'', ''7'']]))
   \<and> root (fst (doDelete ''users'' ''7'' (example_state []))) = root (example_state [])"
proof -
  have h1: "lookup (root (example_state [])) (resolve (cwd (example_state []))
       (Join [dir (example_state []), Join [''users'', ''7'']])) = Inl ENOENT"
    by code_simp
  have h2: "lookup (root (example_state [])) (resolve (cwd (example_state []))
       (Join [dir (example_state []), Join [''users'', ''7'']] @ ''.json'')) = Inl ENOENT"
    by code_simp
  show ?thesis
    using h1 h2 Update_on_missing [OF h1 h2, of marshal_text "''v''"] by simp
qed

text \<open>
  Claim C4 as stated fails when the key names something that is not a record: a directory
  \<^verbatim>\<open>users/old\<close> is removed by the delete phase, a regular file \<^verbatim>\<open>users/note\<close> makes it
  succeed, and in both cases the write phase runs and creates the record. With a directory
  \<^verbatim>\<open>users/7.json\<close> the delete phase succeeds too; the write phase then leaves its temporary
  file and fails at the rename.
\<close>

theorem Update_without_record_counterexample:
  "content_at (users_state [(''42.json'', File ''{}''), (''old'', Dir [])])
       (fnlPath (users_state [(''42.json'', File ''{}''), (''old'', Dir [])]) ''users'' ''old'')
     = None
   \<and> Update marshal_text ''users'' ''old'' ''v''
        (users_state [(''42.json'', File ''{}''), (''old'', Dir [])]) =
       (\<lparr>dir = ''db'', mutexes = [''users''], log = ConsoleLogger INFO,
         logged = [(INFO, ''done creating: %s'', [''old''])],
         root = Dir [(''srv'', Dir [(''db'', Dir [(''users'',
                  Dir [(''42.json'', File ''{}''),
                       (''old.json'', File (''\"v\"'' @ [CHR 0x0A]))])])])],
         cwd = [''srv''], faults = []\<rparr>, ''old'', None)
   \<and> content_at (users_state [(''42.json'', File ''{}''), (''note'', File ''n'')])
       (fnlPath (users_state [(''42.json'', File ''{}''), (''note'', File ''n'')]) ''users'' ''note'')
     = None
   \<and> Update marshal_text ''users'' ''note'' ''v''
        (users_state [(''42.json'', File ''{}''), (''note'', File ''n'')]) =
       (\<lparr>dir = ''db'', mutexes = [''users''], log = ConsoleLogger INFO,
         logged = [(INFO, ''done creating: %s'', [''note''])],
         root = Dir [(''srv'', Dir [(''db'', Dir [(''users'',
                  Dir [(''42.json'', File ''{}''), (''note'', File ''n''),
                       (''note.json'', File (''\"v\"'' @ [CHR 0x0A]))])])])],
         cwd = [''srv''], faults = []\<rparr>, ''note'', None)
   \<and> content_at (users_state [(''42.json'', File ''{}''), (''7.json'', Dir [])])
       (fnlPath (users_state [(''42.json'', File ''{}''), (''7.json'', Dir [])]) ''users'' ''7'')
     = None
   \<and> Update marshal_text ''users'' ''7'' ''v''
        (users_state [(''42.json'', File ''{}''), (''7.json'', Dir [])]) =
       (\<lparr>dir = ''db'', mutexes = [''users''], log = ConsoleLogger INFO,
         logged = [(INFO, ''done creating: %s'', [''7''])],
         root = Dir [(''srv'', Dir [(''db'', Dir [(''users'',
                  Dir [(''42.json'', File ''{}''), (''7.json'', Dir []),
                       (''7.json.tmp'', File (''\"v\"'' @ [CHR 0x0A]))])])])],
         cwd = [''srv''], faults = []\<rparr>, ''7'', Some (OSError EEXIST))"
  by code_simp

text \<open>
  Claim C5, as amended. \<^verbatim>\<open>Write\<close> and \<^verbatim>\<open>Read\<close> called with an empty collection or an empty key
  return the empty key or content with the error \<^verbatim>\<open>missing ...\<close> and leave the whole state, the
  file system included, as it was.
\<close>

theorem empty_argument_rejected:
  assumes "collection = [] \<or> identifier = []"
  shows "Write marshal collection identifier v s =
           (s, [], Some (Errorf (if collection = [] then ''missing collection, no place to save data''
                                 else ''missing identifier'') []))
       \<and> Read collection identifier s =
           (s, [], Some (Errorf (if collection = [] then ''missing collection, no place to get data''
                                 else ''missing ID, no identifier to get data'') []))"
  using assms by (auto simp: Write_def Read_def)

theorem empty_argument_rejected_witness:
  "Write marshal_text ''users'' [] ''v'' (example_state []) =
     (example_state [], [], Some (Errorf ''missing identifier'' []))
   \<and> Read ''users'' [] (example_state []) =
     (example_state [], [], Some (Errorf ''missing ID, no identifier to get data'' []))"
  using empty_argument_rejected [of "''users''" "[]" marshal_text "''v''" "example_state []"]
  by simp

text \<open>
  Claim C5 as stated fails for \<^verbatim>\<open>Delete\<close>: with the empty key the call succeeds and removes
  the directory of the collection.
\<close>

theorem delete_empty_key_counterexample:
  "Delete ''users'' [] (example_state []) =
     (\<lparr>dir = ''db'', mutexes = [''users''], log = ConsoleLogger INFO, logged = [],
       root = Dir [(''srv'', Dir [(''db'', Dir [])])], cwd = [''srv''], faults = []\<rparr>, None)"
  by code_simp

text \<open>
  Claim C9. When the helper \<^verbatim>\<open>stat\<close> reports a regular file for the target, \<^verbatim>\<open>Delete\<close> returns
  nil whatever \<^verbatim>\<open>os.RemoveAll\<close> returns: the state is the one the removal left and its error is
  dropped.
\<close>

theorem Delete_swallows_removal_error:
  assumes "stat (Join [dir s, Join [collection, ID]]) (getMutex collection s)
             = (s1, Some ModeRegular, None)"
    and "os_RemoveAll (Join [dir s, Join [collection, ID]] @ ''.json'') s1 = (s2, err)"
  shows "Delete collection ID s = (s2, None)"
  using assms
  by (simp add: Delete_def doDelete_def Let_def IsDir_def IsRegular_def getMutex_frame)

theorem Delete_swallows_removal_error_witness:
  "stat (Join [dir (example_state [None, None, Some (Fail EACCES)]), Join [''users'', ''42'']])
       (getMutex ''users'' (example_state [None, None, Some (Fail EACCES)]))
     = (\<lparr>dir = ''db'', mutexes = [''users''], log = ConsoleLogger INFO, logged = [],
         root = example_tree, cwd = [''srv''], faults = [Some (Fail EACCES)]\<rparr>,
        Some ModeRegular, None)
   \<and> os_RemoveAll (Join [dir (example_state [None, None, Some (Fail EACCES)]),
          Join [''users'', ''42'']] @ ''.json'')
        \<lparr>dir = ''db'', mutexes = [''users''], log = ConsoleLogger INFO, logged = [],
         root = example_tree, cwd = [''srv''], faults = [Some (Fail EACCES)]\<rparr>
     = (\<lparr>dir = ''db'', mutexes = [''users''], log = ConsoleLogger INFO, logged = [],
         root = example_tree, cwd = [''srv''], faults = []\<rparr>, Some (OSError EACCES))
   \<and> Delete ''users'' ''42'' (example_state [None, None, Some (Fail EACCES)])
     = (\<lparr>dir = ''db'', mutexes = [''users''], log = ConsoleLogger INFO, logged = [],
         root = example_tree, cwd = [''srv''], faults = []\<rparr>, None)"
proof -
  have h1: "stat (Join [dir (example_state [None, None, Some (Fail EACCES)]), Join [''users'', ''42'']])
       (getMutex ''users'' (example_state [None, None, Some (Fail EACCES)]))
     = (\<lparr>dir = ''db'', mutexes = [''users''], log = ConsoleLogger INFO, logged = [],
         root = example_tree, cwd = [''srv''], faults = [Some (Fail EACCES)]\<rparr>,
        Some ModeRegular, None)" by code_simp
  have h2: "os_RemoveAll (Join [dir (example_state [None, None, Some (Fail EACCES)]),
          Join [''users'', ''42'']] @ ''.json'')
        \<lparr>dir = ''db'', mutexes = [''users''], log = ConsoleLogger INFO, logged = [],
         root = example_tree, cwd = [''srv''], faults = [Some (Fail EACCES)]\<rparr>
     = (\<lparr>dir = ''db'', mutexes = [''users''], log = ConsoleLogger INFO, logged = [],
         root = example_tree, cwd = [''srv''], faults = []\<rparr>, Some (OSError EACCES))"
    by code_simp
  show ?thesis using h1 h2 Delete_swallows_removal_error [OF h1 h2] by simp
qed

text \<open>
  Claim C10. When something exists at the cleaned root path, a directory or a regular file,
  and \<^verbatim>\<open>os.Stat\<close> meets no injected failure, \<^verbatim>\<open>New\<close> returns no error, leaves the file
  system as it was and keeps the cleaned path as the directory of the driver.
\<close>

theorem New_existing_root:
  assumes "faults s = []"
    and "lookup (root s) (resolve (cwd s) (Clean d)) = Inr n"
  shows "snd (New d opt s) = None \<and> root (fst (New d opt s)) = root s
       \<and> dir (fst (New d opt s)) = Clean d"
  using assms
  by (simp add: New_def Let_def os_Stat_def next_fault_def Clean_nonempty Debug_def)

theorem New_existing_root_witness:
  "faults (example_state []) = []
   \<and> lookup (root (example_state [])) (resolve (cwd (example_state [])) (Clean ''db/users/42.json''))
       = Inr (File ''{}'')
   \<and> snd (New ''db/users/42.json'' None (example_state [])) = None
   \<and> root (fst (New ''db/users/42.json'' None (example_state []))) = root (example_state [])
   \<and> dir (fst (New ''db/users/42.json'' None (example_state []))) = Clean ''db/users/42.json''"
proof -
  have h1: "faults (example_state []) = []" by code_simp
  have h2: "lookup (root (example_state [])) (resolve (cwd (example_state []))
      (Clean ''db/users/42.json'')) = Inr (File ''{}'')" by code_simp
  show ?thesis using h1 h2 New_existing_root [OF h1 h2, of None] by simp
qed

text \<open>
  Claim C1. In the state \<^verbatim>\<open>doWrite\<close> has reached when it is about to rename (or has returned
  early), and in the state it returns with an error, a reader finds under the final name what
  it found before the call: the record written earlier is unchanged, and without one there is
  still no file under that name. The failures covered are those of the file system and any the
  environment injects, a partial write of the temporary file included.
\<close>

theorem write_failure_keeps_record:
  "content_at (fst (doWrite_tmp marshal collection ID v s)) (fnlPath s collection ID)
     = content_at s (fnlPath s collection ID)
   \<and> (snd (snd (doWrite marshal collection ID v s)) \<noteq> None \<longrightarrow>
        content_at (fst (doWrite marshal collection ID v s)) (fnlPath s collection ID)
          = content_at s (fnlPath s collection ID))"
proof -
  obtain s2 r where t: "doWrite_tmp marshal collection ID v s = (s2, r)"
    by (cases "doWrite_tmp marshal collection ID v s")
  note res = doWrite_tmp_result [OF t]
  have a: "content_at s2 (fnlPath s collection ID) = content_at s (fnlPath s collection ID)"
    by (rule res(2))
  have b: "content_at (fst (doWrite marshal collection ID v s)) (fnlPath s collection ID)
          = content_at s (fnlPath s collection ID)"
    if err: "snd (snd (doWrite marshal collection ID v s)) \<noteq> None"
  proof (cases r)
    case (Inl e)
    then show ?thesis using t a by (simp add: doWrite_def)
  next
    case (Inr names)
    obtain tmp fnl where n: "names = (tmp, fnl)" by (cases names)
    obtain s3 e3 where rn: "os_Rename tmp fnl (Info ''done creating: %s'' [ID] s2) = (s3, e3)"
      by (cases "os_Rename tmp fnl (Info ''done creating: %s'' [ID] s2)")
    have dw: "doWrite marshal collection ID v s = (s3, ID, e3)"
      using t Inr n rn by (simp add: doWrite_def)
    with err obtain e where "e3 = Some e" by auto
    with os_Rename_failed [of tmp fnl _ s3 e] rn have "root s3 = root s2"
      by (simp add: Info_frame)
    then show ?thesis using dw a by (simp add: content_at_def)
  qed
  show ?thesis using t a b by simp
qed

theorem write_failure_keeps_record_witness:
  "snd (snd (doWrite marshal_text ''users'' ''42'' ''new''
       (example_state [None, Some (FailPartial ENOSPC 2)]))) = Some (OSError ENOSPC)
   \<and> content_at (example_state [None, Some (FailPartial ENOSPC 2)])
        (fnlPath (example_state [None, Some (FailPartial ENOSPC 2)]) ''users'' ''42'') = Some ''{}''
   \<and> content_at (fst (doWrite marshal_text ''users'' ''42'' ''new''
         (example_state [None, Some (FailPartial ENOSPC 2)])))
        (fnlPath (example_state [None, Some (FailPartial ENOSPC 2)]) ''users'' ''42'') = Some ''{}''"
proof -
  let ?s = "example_state [None, Some (FailPartial ENOSPC 2)]"
  have e: "snd (snd (doWrite marshal_text ''users'' ''42'' ''new'' ?s)) = Some (OSError ENOSPC)"
    by code_simp
  have c: "content_at ?s (fnlPath ?s ''users'' ''42'') = Some ''{}''"
    by code_simp
  show ?thesis
    using e c write_failure_keeps_record [of marshal_text "''users''" "''42''" "''new''" ?s]
    by simp
qed

text \<open>
  Claim C7. After a successful \<^verbatim>\<open>Write\<close> the returned key is the key passed in, the encoder
  accepted the value, and the final file holds the encoder's output followed by one newline.
  The encoder stands for \<^verbatim>\<open>json.MarshalIndent\<close> with the empty prefix and a tab as the
  indent. The final file is the one \<^verbatim>\<open>doWrite\<close> computes; when the collection and the key are
  proper names it is the key with the extension, in the collection, in the root.
\<close>

theorem write_stores_encoding:
  assumes "Write marshal collection identifier v s = (s', key, None)"
  shows "key = identifier \<and> snd (marshal v) = None
       \<and> content_at s' (fnlPath s collection identifier) = Some (fst (marshal v) @ [CHR 0x0A])
       \<and> (dir s \<noteq> [] \<and> name_elem collection \<and> name_elem identifier \<longrightarrow>
            fnlPath s collection identifier
              = resolve (cwd s) (dir s) @ [collection, identifier @ ''.json''])"
  using Write_ok(1) [OF assms] fnlPath_plain [of s collection "identifier"] by blast

theorem write_stores_encoding_witness:
  "Write marshal_text ''users'' ''7'' ''v'' (example_state []) =
     (\<lparr>dir = ''db'', mutexes = [''users''], log = ConsoleLogger INFO,
       logged = [(INFO, ''done creating: %s'', [''7''])],
       root = Dir [(''srv'', Dir [(''db'', Dir [(''users'',
                Dir [(''42.json'', File ''{}''), (''7.json'', File (''\"v\"'' @ [CHR 0x0A]))])])])],
       cwd = [''srv''], faults = []\<rparr>, ''7'', None)
   \<and> snd (marshal_text ''v'') = None
   \<and> content_at (fst (Write marshal_text ''users'' ''7'' ''v'' (example_state [])))
        (fnlPath (example_state []) ''users'' ''7'') = Some (fst (marshal_text ''v'') @ [CHR 0x0A])
   \<and> dir (example_state []) \<noteq> [] \<and> name_elem ''users'' \<and> name_elem ''7''
   \<and> fnlPath (example_state []) ''users'' ''7''
       = resolve (cwd (example_state [])) (dir (example_state [])) @ [''users'', ''7'' @ ''.json'']"
proof -
  have w: "Write marshal_text ''users'' ''7'' ''v'' (example_state []) =
     (\<lparr>dir = ''db'', mutexes = [''users''], log = ConsoleLogger INFO,
       logged = [(INFO, ''done creating: %s'', [''7''])],
       root = Dir [(''srv'', Dir [(''db'', Dir [(''users'',
                Dir [(''42.json'', File ''{}''), (''7.json'', File (''\"v\"'' @ [CHR 0x0A]))])])])],
       cwd = [''srv''], faults = []\<rparr>, ''7'', None)"
    by code_simp
  have n: "dir (example_state []) \<noteq> [] \<and> name_elem ''users'' \<and> name_elem ''7''"
    by code_simp
  note t = write_stores_encoding [OF w]
  have c: "content_at (fst (Write marshal_text ''users'' ''7'' ''v'' (example_state [])))
        (fnlPath (example_state []) ''users'' ''7'') = Some (fst (marshal_text ''v'') @ [CHR 0x0A])"
    using t by (simp only: w fst_conv)
  have p: "fnlPath (example_state []) ''users'' ''7''
       = resolve (cwd (example_state [])) (dir (example_state [])) @ [''users'', ''7'' @ ''.json'']"
    using t n by blast
  show ?thesis using w n t c p by blast
qed

text \<open>
  Claim C8. \<^verbatim>\<open>ReadAll\<close> with the empty collection returns the error
  \<^verbatim>\<open>missing collection\<close> and leaves the state alone. When the directory of the collection
  does not exist and no failure is injected, it returns the error \<^verbatim>\<open>ENOENT\<close> of \<^verbatim>\<open>os\<close>. When
  the listing is read and the entries before one entry are read but that entry is not, it
  returns the error of that entry and no record, in the state that failed read left: the
  entries after it are not read.
\<close>

theorem ReadAll_failures:
  "ReadAll [] s = (s, [], Some (Errorf ''missing collection, no place to get data'' []))
   \<and> (collection \<noteq> [] \<and> faults s = []
        \<and> lookup (root s) (resolve (cwd s) (Join [dir s, collection])) = Inl ENOENT \<longrightarrow>
      ReadAll collection s = (s, [], Some (OSError ENOENT)))
   \<and> (collection \<noteq> []
        \<and> stat (Join [dir s, collection]) s = (s1, fi, None)
        \<and> os_ReadDir (Join [dir s, collection]) s1 = (s2, before @ name # after, None)
        \<and> readFiles (Join [dir s, collection]) before [] s2 = (s3, records, None)
        \<and> os_ReadFile (Join [Join [dir s, collection], name]) s3 = (s4, b, Some e) \<longrightarrow>
      ReadAll collection s = (s4, [], Some e))"
proof (intro conjI impI)
  show "ReadAll [] s = (s, [], Some (Errorf ''missing collection, no place to get data'' []))"
    by (simp add: ReadAll_def)
next
  assume "collection \<noteq> [] \<and> faults s = []
        \<and> lookup (root s) (resolve (cwd s) (Join [dir s, collection])) = Inl ENOENT"
  then show "ReadAll collection s = (s, [], Some (OSError ENOENT))"
    using ReadAll_missing by blast
next
  assume a: "collection \<noteq> []
        \<and> stat (Join [dir s, collection]) s = (s1, fi, None)
        \<and> os_ReadDir (Join [dir s, collection]) s1 = (s2, before @ name # after, None)
        \<and> readFiles (Join [dir s, collection]) before [] s2 = (s3, records, None)
        \<and> os_ReadFile (Join [Join [dir s, collection], name]) s3 = (s4, b, Some e)"
  then have "readFiles (Join [dir s, collection]) (before @ name # after) [] s2 = (s4, [], Some e)"
    by (simp add: readFiles_append)
  with a show "ReadAll collection s = (s4, [], Some e)"
    by (simp add: ReadAll_def Let_def)
qed


theorem ReadAll_failures_witness:
  "ReadAll [] mixed_state =
     (mixed_state, [], Some (Errorf ''missing collection, no place to get data'' []))
   \<and> lookup (root mixed_state) (resolve (cwd mixed_state) (Join [dir mixed_state, ''ghosts'']))
       = Inl ENOENT
   \<and> ReadAll ''ghosts'' mixed_state = (mixed_state, [], Some (OSError ENOENT))
   \<and> os_ReadDir (Join [dir mixed_state, ''users'']) mixed_state
       = (mixed_state, [''42.json'', ''7.json''] @ ''old'' # [''z.json''], None)
   \<and> readFiles (Join [dir mixed_state, ''users'']) [''42.json'', ''7.json''] [] mixed_state
       = (mixed_state, [''{}'', ''7''], None)
   \<and> os_ReadFile (Join [Join [dir mixed_state, ''users''], ''old'']) mixed_state
       = (mixed_state, [], Some (OSError EISDIR))
   \<and> ReadAll ''users'' mixed_state = (mixed_state, [], Some (OSError EISDIR))"
proof -
  have h2: "''ghosts'' \<noteq> [] \<and> faults mixed_state = []
      \<and> lookup (root mixed_state) (resolve (cwd mixed_state) (Join [dir mixed_state, ''ghosts'']))
          = Inl ENOENT"
    by code_simp
  have h3: "''users'' \<noteq> []
      \<and> stat (Join [dir mixed_state, ''users'']) mixed_state = (mixed_state, Some ModeDir, None)
      \<and> os_ReadDir (Join [dir mixed_state, ''users'']) mixed_state
          = (mixed_state, [''42.json'', ''7.json''] @ ''old'' # [''z.json''], None)
      \<and> readFiles (Join [dir mixed_state, ''users'']) [''42.json'', ''7.json''] [] mixed_state
          = (mixed_state, [''{}'', ''7''], None)
      \<and> os_ReadFile (Join [Join [dir mixed_state, ''users''], ''old'']) mixed_state
          = (mixed_state, [], Some (OSError EISDIR))"
    by code_simp
  show ?thesis
    using h2 h3
      ReadAll_failures [of mixed_state "''ghosts''"]
      ReadAll_failures [of mixed_state "''users''" mixed_state "Some ModeDir" mixed_state
        "[''42.json'', ''7.json'']" "''old''" "[''z.json'']" mixed_state "[''{}'', ''7'']"
        mixed_state "[]" "OSError EISDIR"]
    by simp
qed

text \<open>
  Claim C6. When the directory of a collection with a proper name (such as \<^verbatim>\<open>users\<close>) exists
  and no failure is injected, \<^verbatim>\<open>Delete\<close> with the empty key returns nil, nothing is left at
  or below the directory, and a following \<^verbatim>\<open>ReadAll\<close> of the collection returns no records
  and the error \<^verbatim>\<open>ENOENT\<close>.
\<close>

theorem delete_collection:
  assumes "name_elem collection" and "faults s = []"
    and "lookup (root s) (resolve (cwd s) (Join [dir s, collection])) = Inr (Dir es)"
  shows "snd (Delete collection [] s) = None
       \<and> (\<forall>q. lookup (root (fst (Delete collection [] s)))
                 (resolve (cwd s) (Join [dir s, collection]) @ q) = Inl ENOENT)
       \<and> snd (ReadAll collection (fst (Delete collection [] s))) = ([], Some (OSError ENOENT))"
proof -
  let ?s0 = "getMutex collection s"
  let ?d = "Join [dir s, collection]"
  let ?p = "resolve (cwd s) ?d"
  note cd = collection_dir [OF assms(1), where d = "dir s"]
  have ne: "collection \<noteq> []" using assms(1) by (auto simp: name_elem_def)
  have p: "?p \<noteq> []" using cd(3) [where wd = "cwd s"] by (metis snoc_eq_iff_butlast)
  have f0: "faults ?s0 = []" using assms(2) by (simp add: getMutex_frame)
  have st: "stat ?d ?s0 = (?s0, Some ModeDir, None)"
    using f0 cd(1) assms(3) by (simp add: stat_quiet getMutex_frame)
  obtain t' where un: "unlink (root s) ?p = Inr t'"
    using unlink_exists [OF assms(3) p] by blast
  have rm: "os_RemoveAll ?d ?s0 = (?s0\<lparr>root := t'\<rparr>, None)"
    using f0 cd(1,2,4) p un by (simp add: os_RemoveAll_quiet getMutex_frame)
  have del: "Delete collection [] s = (?s0\<lparr>root := t'\<rparr>, None)"
    using st rm Join_name_empty [OF assms(1)]
    by (simp add: Delete_def doDelete_def Let_def getMutex_frame IsDir_def)
  have gone: "lookup t' (?p @ q) = Inl ENOENT" for q
    using un by (rule unlink_lookup)
  have "ReadAll collection (?s0\<lparr>root := t'\<rparr>) = (?s0\<lparr>root := t'\<rparr>, [], Some (OSError ENOENT))"
    using ne f0 gone [of "[]"] by (intro ReadAll_missing) (simp_all add: getMutex_frame)
  then show ?thesis using del gone by simp
qed

theorem delete_collection_witness:
  "name_elem ''users'' \<and> faults (example_state []) = []
   \<and> lookup (root (example_state []))
        (resolve (cwd (example_state [])) (Join [dir (example_state []), ''users'']))
       = Inr (Dir [(''42.json'', File ''{}'')])
   \<and> Delete ''users'' [] (example_state []) =
       (\<lparr>dir = ''db'', mutexes = [''users''], log = ConsoleLogger INFO, logged = [],
         root = Dir [(''srv'', Dir [(''db'', Dir [])])], cwd = [''srv''], faults = []\<rparr>, None)
   \<and> (\<forall>q. lookup (root (fst (Delete ''users'' [] (example_state []))))
              (resolve (cwd (example_state [])) (Join [dir (example_state []), ''users'']) @ q)
            = Inl ENOENT)
   \<and> snd (ReadAll ''users'' (fst (Delete ''users'' [] (example_state []))))
       = ([], Some (OSError ENOENT))"
proof -
  have h1: "name_elem ''users''" by code_simp
  have h2: "faults (example_state []) = []" by code_simp
  have h3: "lookup (root (example_state []))
        (resolve (cwd (example_state [])) (Join [dir (example_state []), ''users'']))
       = Inr (Dir [(''42.json'', File ''{}'')])" by code_simp
  have d: "Delete ''users'' [] (example_state []) =
       (\<lparr>dir = ''db'', mutexes = [''users''], log = ConsoleLogger INFO, logged = [],
         root = Dir [(''srv'', Dir [(''db'', Dir [])])], cwd = [''srv''], faults = []\<rparr>, None)"
    by code_simp
  show ?thesis using h1 h2 h3 d delete_collection [OF h1 h2 h3] by blast
qed

text \<open>
  Claim C2, as amended. When the last element of the key is a proper name (not empty, not
  \<^verbatim>\<open>.\<close> and not \<^verbatim>\<open>..\<close>), a successful \<^verbatim>\<open>Write\<close> followed by a \<^verbatim>\<open>Read\<close> that meets no
  injected failure returns the bytes the encoder produced with the newline appended; a decoder
  that inverts the encoder on such text gives the value back.
\<close>

theorem write_then_read:
  assumes "Write marshal collection key v s = (s1, k', None)"
    and "name_elem (last (split_sep key))"
    and "faults s1 = []"
    and "unmarshal (fst (marshal v) @ [CHR 0x0A]) = Some v"
  shows "Read collection key s1 = (s1, fst (marshal v) @ [CHR 0x0A], None)
       \<and> unmarshal (fst (snd (Read collection key s1))) = Some v"
proof -
  note w = Write_ok [OF assms(1)]
  have "lookup (root s1) (resolve (cwd s1) (Join [dir s1, collection, key] @ ''.json''))
      = Inr (File (fst (marshal v) @ [CHR 0x0A]))"
    using w(1,2) record_path(1) [OF assms(2), of "cwd s" "dir s" collection]
    by (simp add: content_at_Some fnlPath_def)
  from Read_record [OF assms(3,2) _ this] w(3)
  have "Read collection key s1 = (s1, fst (marshal v) @ [CHR 0x0A], None)" by simp
  then show ?thesis using assms(4) by simp
qed


theorem write_then_read_witness:
  "Write marshal_text ''users'' ''7'' ''v'' (example_state []) =
     (\<lparr>dir = ''db'', mutexes = [''users''], log = ConsoleLogger INFO,
       logged = [(INFO, ''done creating: %s'', [''7''])],
       root = Dir [(''srv'', Dir [(''db'', Dir [(''users'',
                Dir [(''42.json'', File ''{}''), (''7.json'', File (''\"v\"'' @ [CHR 0x0A]))])])])],
       cwd = [''srv''], faults = []\<rparr>, ''7'', None)
   \<and> name_elem (last (split_sep ''7''))
   \<and> unmarshal_text (fst (marshal_text ''v'') @ [CHR 0x0A]) = Some ''v''
   \<and> Read ''users'' ''7''
        \<lparr>dir = ''db'', mutexes = [''users''], log = ConsoleLogger INFO,
         logged = [(INFO, ''done creating: %s'', [''7''])],
         root = Dir [(''srv'', Dir [(''db'', Dir [(''users'',
                  Dir [(''42.json'', File ''{}''), (''7.json'', File (''\"v\"'' @ [CHR 0x0A]))])])])],
         cwd = [''srv''], faults = []\<rparr>
      = (\<lparr>dir = ''db'', mutexes = [''users''], log = ConsoleLogger INFO,
         logged = [(INFO, ''done creating: %s'', [''7''])],
         root = Dir [(''srv'', Dir [(''db'', Dir [(''users'',
                  Dir [(''42.json'', File ''{}''), (''7.json'', File (''\"v\"'' @ [CHR 0x0A]))])])])],
         cwd = [''srv''], faults = []\<rparr>, fst (marshal_text ''v'') @ [CHR 0x0A], None)
   \<and> unmarshal_text (fst (snd (Read ''users'' ''7''
        \<lparr>dir = ''db'', mutexes = [''users''], log = ConsoleLogger INFO,
         logged = [(INFO, ''done creating: %s'', [''7''])],
         root = Dir [(''srv'', Dir [(''db'', Dir [(''users'',
                  Dir [(''42.json'', File ''{}''), (''7.json'', File (''\"v\"'' @ [CHR 0x0A]))])])])],
         cwd = [''srv''], faults = []\<rparr>))) = Some ''v''"
proof -
  let ?s1 = "\<lparr>dir = ''db'', mutexes = [''users''], log = ConsoleLogger INFO,
       logged = [(INFO, ''done creating: %s'', [''7''])],
       root = Dir [(''srv'', Dir [(''db'', Dir [(''users'',
                Dir [(''42.json'', File ''{}''), (''7.json'', File (''\"v\"'' @ [CHR 0x0A]))])])])],
       cwd = [''srv''], faults = []\<rparr>"
  have h1: "Write marshal_text ''users'' ''7'' ''v'' (example_state []) = (?s1, ''7'', None)"
    by code_simp
  have h2: "name_elem (last (split_sep ''7''))" by code_simp
  have h3: "faults ?s1 = []" by simp
  have h4: "unmarshal_text (fst (marshal_text ''v'') @ [CHR 0x0A]) = Some ''v''" by code_simp
  show ?thesis using h1 h2 h4 write_then_read [where unmarshal = unmarshal_text, OF h1 h2 h3 h4] by simp
qed

text \<open>
  Claim C2 as stated fails for the key \<^verbatim>\<open>.\<close>: the write stores the file \<^verbatim>\<open>..json\<close> in the
  directory of the collection, and the read looks for \<^verbatim>\<open>users.json\<close> beside that
  directory.
\<close>

theorem write_then_read_counterexample:
  "Write marshal_text ''users'' ''.'' ''v'' (example_state []) =
     (\<lparr>dir = ''db'', mutexes = [''users''], log = ConsoleLogger INFO,
       logged = [(INFO, ''done creating: %s'', [''.''])],
       root = Dir [(''srv'', Dir [(''db'', Dir [(''users'',
                Dir [(''42.json'', File ''{}''), (''..json'', File (''\"v\"'' @ [CHR 0x0A]))])])])],
       cwd = [''srv''], faults = []\<rparr>, ''.'', None)
   \<and> Read ''users'' ''.''
        \<lparr>dir = ''db'', mutexes = [''users''], log = ConsoleLogger INFO,
         logged = [(INFO, ''done creating: %s'', [''.''])],
         root = Dir [(''srv'', Dir [(''db'', Dir [(''users'',
                  Dir [(''42.json'', File ''{}''), (''..json'', File (''\"v\"'' @ [CHR 0x0A]))])])])],
         cwd = [''srv''], faults = []\<rparr>
      = (\<lparr>dir = ''db'', mutexes = [''users''], log = ConsoleLogger INFO,
         logged = [(INFO, ''done creating: %s'', [''.''])],
         root = Dir [(''srv'', Dir [(''db'', Dir [(''users'',
                  Dir [(''42.json'', File ''{}''), (''..json'', File (''\"v\"'' @ [CHR 0x0A]))])])])],
         cwd = [''srv''], faults = []\<rparr>, [], Some (OSError ENOENT))"
  by code_simp

text \<open>
  Claim C3, as amended. Let a record be stored at \<^verbatim>\<open>users/42.json\<close> below the root and let no
  failure be injected. \<^verbatim>\<open>Read\<close> with the key \<^verbatim>\<open>42\<close> returns its content. \<^verbatim>\<open>Read\<close> with the key
  \<^verbatim>\<open>42.json\<close> reads \<^verbatim>\<open>users/42.json.json\<close> and fails with \<^verbatim>\<open>ENOENT\<close> when that does not
  exist. \<^verbatim>\<open>Delete\<close> with the key \<^verbatim>\<open>42\<close> removes the record unless \<^verbatim>\<open>users/42\<close> is a
  directory. \<^verbatim>\<open>Delete\<close> with the key \<^verbatim>\<open>42.json\<close> returns nil and leaves the record in
  place.
\<close>

theorem record_by_key_and_by_file_name:
  assumes "faults s = []" and "content_at s (fnlPath s ''users'' ''42'') = Some content"
  shows "Read ''users'' ''42'' s = (s, content, None)
       \<and> (lookup (root s) (fnlPath s ''users'' ''42.json'') = Inl ENOENT \<longrightarrow>
            Read ''users'' ''42.json'' s = (s, [], Some (OSError ENOENT)))
       \<and> (\<not> dir_at (root s) (resolve (cwd s) (Join [dir s, ''users'', ''42''])) \<longrightarrow>
            snd (Delete ''users'' ''42'' s) = None
            \<and> lookup (root (fst (Delete ''users'' ''42'' s))) (fnlPath s ''users'' ''42'')
                = Inl ENOENT)
       \<and> snd (Delete ''users'' ''42.json'' s) = None
       \<and> content_at (fst (Delete ''users'' ''42.json'' s)) (fnlPath s ''users'' ''42'')
           = Some content"
proof -
  let ?r = "Join [dir s, ''users'', ''42'']"
  let ?q = "butlast (resolve (cwd s) ?r)"
  let ?s0 = "getMutex ''users'' s"
  note rp = record_path [OF users_42(3), of "cwd s" "dir s" "''users''"]
  note rp4 = record_path [OF users_42(4), of "cwd s" "dir s" "''users''"]
  have r4: "Join [dir s, ''users'', ''42.json''] = ?r @ ''.json''"
    using Join_suffix [OF users_42(3), of "''.json''" "dir s" "''users''"] by simp
  have ne: "?r \<noteq> []" by (simp add: Join3_nonempty)
  have f0: "faults ?s0 = []" using assms(1) by (simp add: getMutex_frame)
  have fn: "fnlPath s ''users'' ''42'' = resolve (cwd s) (?r @ ''.json'')"
    using rp(1) by (simp add: fnlPath_def)
  have fq: "resolve (cwd s) (?r @ ''.json'') = ?q @ [''42.json'']"
    using rp(2) users_42(5) by simp
  have fn4: "fnlPath s ''users'' ''42.json'' = resolve (cwd s) ((?r @ ''.json'') @ ''.json'')"
    using rp4(1) r4 by (simp add: fnlPath_def)
  have fq4: "resolve (cwd s) ((?r @ ''.json'') @ ''.json'') = ?q @ [''42.json.json'']"
    using rp4(2) r4 fq users_42(6) by simp
  have st: "lookup (root s) (resolve (cwd s) (?r @ ''.json'')) = Inr (File content)"
    using assms(2) fn by (simp add: content_at_Some)
  have a: "Read ''users'' ''42'' s = (s, content, None)"
    using st by (intro Read_record [OF assms(1) users_42(3)]) simp_all
  have b: "Read ''users'' ''42.json'' s = (s, [], Some (OSError ENOENT))"
    if "lookup (root s) (fnlPath s ''users'' ''42.json'') = Inl ENOENT"
    using that st assms(1) ne fn4 r4
    by (simp add: Read_def Let_def stat_quiet os_ReadFile_quiet)
  have c: "snd (Delete ''users'' ''42'' s) = None
      \<and> lookup (root (fst (Delete ''users'' ''42'' s))) (fnlPath s ''users'' ''42'') = Inl ENOENT"
    if nd: "\<not> dir_at (root s) (resolve (cwd s) ?r)"
  proof -
    have "lookup (root s) (?q @ [''42'']) = Inl ENOENT
        \<or> (\<exists>m. lookup (root s) (?q @ [''42'']) = Inr m)"
      using lookup_sibling [of "root s" ?q "''42.json''" "File content" "''42''"] st fq by simp
    moreover have "resolve (cwd s) ?r = ?q @ [''42'']"
      using rp(3) users_42(5) by simp
    ultimately have "lookup (root s) (resolve (cwd s) ?r) = Inl ENOENT
        \<or> (\<exists>c. lookup (root s) (resolve (cwd s) ?r) = Inr (File c))"
      using nd by (auto simp: dir_at_def split: node.splits)
    then have sta: "stat ?r ?s0 = (?s0, Some ModeRegular, None)"
      using st f0 ne by (auto simp: stat_quiet getMutex_frame)
    obtain t' where un: "unlink (root s) (?q @ [''42.json'']) = Inr t'"
      using unlink_exists [of "root s" "?q @ [''42.json'']"] st fq by auto
    have "os_RemoveAll (?r @ ''.json'') ?s0 = (?s0\<lparr>root := t'\<rparr>, None)"
      using f0 un fq not_endsWithDot_json [of ?r]
      by (simp add: os_RemoveAll_quiet getMutex_frame)
    then have "Delete ''users'' ''42'' s = (?s0\<lparr>root := t'\<rparr>, None)"
      using sta
      by (simp add: Delete_def doDelete_def Let_def getMutex_frame IsDir_def IsRegular_def
          users_42(1) Join_users_42(1))
    then show ?thesis
      using unlink_lookup [OF un, of "[]"] fn fq by simp
  qed
  have d: "snd (Delete ''users'' ''42.json'' s) = None
      \<and> content_at (fst (Delete ''users'' ''42.json'' s)) (fnlPath s ''users'' ''42'')
          = Some content"
  proof -
    let ?r4 = "?r @ ''.json''"
    have sta: "stat ?r4 ?s0 = (?s0, Some ModeRegular, None)"
      using st f0 by (simp add: stat_quiet getMutex_frame)
    have rm: "os_RemoveAll (?r4 @ ''.json'') ?s0 =
        (case unlink (root s) (?q @ [''42.json.json'']) of
           Inl e \<Rightarrow> (?s0, Some (OSError e))
         | Inr t \<Rightarrow> (?s0\<lparr>root := t\<rparr>, None))"
      using f0 fq4 not_endsWithDot_json [of ?r4]
      by (simp add: os_RemoveAll_quiet getMutex_frame)
    have keep: "lookup (root (fst (os_RemoveAll (?r4 @ ''.json'') ?s0))) (?q @ [''42.json''])
        = Inr (File content)"
    proof (cases "unlink (root s) (?q @ [''42.json.json''])")
      case (Inl e)
      then show ?thesis using rm st fq by (simp add: getMutex_frame)
    next
      case (Inr t)
      have "lookup t (?q @ [''42.json'']) = lookup (root s) (?q @ [''42.json''])"
        using Inr by (rule unlink_sibling) simp
      then show ?thesis using rm Inr st fq by simp
    qed
    have "Delete ''users'' ''42.json'' s = (fst (os_RemoveAll (?r4 @ ''.json'') ?s0), None)"
      using sta
      by (simp add: Delete_def doDelete_def Let_def getMutex_frame IsDir_def IsRegular_def
          users_42(2) Join_users_42(2))
    then show ?thesis using keep fn fq by (simp add: content_at_Some)
  qed
  show ?thesis using a b c d by blast
qed


theorem record_by_key_and_by_file_name_witness:
  "faults (users_state [(''42.json'', File ''{}''), (''42'', File ''bare'')]) = []
   \<and> content_at (users_state [(''42.json'', File ''{}''), (''42'', File ''bare'')])
        (fnlPath (users_state [(''42.json'', File ''{}''), (''42'', File ''bare'')]) ''users'' ''42'')
       = Some ''{}''
   \<and> Read ''users'' ''42'' (users_state [(''42.json'', File ''{}''), (''42'', File ''bare'')])
       = (users_state [(''42.json'', File ''{}''), (''42'', File ''bare'')], ''{}'', None)
   \<and> lookup (root (users_state [(''42.json'', File ''{}''), (''42'', File ''bare'')]))
        (fnlPath (users_state [(''42.json'', File ''{}''), (''42'', File ''bare'')])
           ''users'' ''42.json'')
       = Inl ENOENT
   \<and> Read ''users'' ''42.json'' (users_state [(''42.json'', File ''{}''), (''42'', File ''bare'')])
       = (users_state [(''42.json'', File ''{}''), (''42'', File ''bare'')], [],
          Some (OSError ENOENT))
   \<and> \<not> dir_at (root (users_state [(''42.json'', File ''{}''), (''42'', File ''bare'')]))
        (resolve (cwd (users_state [(''42.json'', File ''{}''), (''42'', File ''bare'')]))
           (Join [dir (users_state [(''42.json'', File ''{}''), (''42'', File ''bare'')]),
                  ''users'', ''42'']))
   \<and> snd (Delete ''users'' ''42''
        (users_state [(''42.json'', File ''{}''), (''42'', File ''bare'')])) = None
   \<and> lookup (root (fst (Delete ''users'' ''42''
          (users_state [(''42.json'', File ''{}''), (''42'', File ''bare'')]))))
        (fnlPath (users_state [(''42.json'', File ''{}''), (''42'', File ''bare'')]) ''users'' ''42'')
       = Inl ENOENT
   \<and> snd (Delete ''users'' ''42.json''
        (users_state [(''42.json'', File ''{}''), (''42'', File ''bare'')])) = None
   \<and> content_at (fst (Delete ''users'' ''42.json''
          (users_state [(''42.json'', File ''{}''), (''42'', File ''bare'')])))
        (fnlPath (users_state [(''42.json'', File ''{}''), (''42'', File ''bare'')]) ''users'' ''42'')
       = Some ''{}''"
proof -
  let ?s = "users_state [(''42.json'', File ''{}''), (''42'', File ''bare'')]"
  have h1: "faults ?s = []" by code_simp
  have h2: "content_at ?s (fnlPath ?s ''users'' ''42'') = Some ''{}''" by code_simp
  have h3: "lookup (root ?s) (fnlPath ?s ''users'' ''42.json'') = Inl ENOENT" by code_simp
  have h4: "\<not> dir_at (root ?s) (resolve (cwd ?s) (Join [dir ?s, ''users'', ''42'']))"
    by code_simp
  show ?thesis using h1 h2 h3 h4 record_by_key_and_by_file_name [OF h1 h2] by simp
qed

text \<open>
  Claim C3 as stated fails: with the record stored at \<^verbatim>\<open>users/42.json\<close>, \<^verbatim>\<open>Read\<close> with the key
  \<^verbatim>\<open>42.json\<close> fails, and \<^verbatim>\<open>Delete\<close> with that key leaves the file system as it was. And
  when \<^verbatim>\<open>users/42\<close> is a directory, \<^verbatim>\<open>Delete\<close> with the key \<^verbatim>\<open>42\<close> removes the directory and
  leaves the record.
\<close>

theorem file_name_as_key_counterexample:
  "content_at (example_state []) (fnlPath (example_state []) ''users'' ''42'') = Some ''{}''
   \<and> Read ''users'' ''42.json'' (example_state []) = (example_state [], [], Some (OSError ENOENT))
   \<and> Delete ''users'' ''42.json'' (example_state []) =
       (\<lparr>dir = ''db'', mutexes = [''users''], log = ConsoleLogger INFO, logged = [],
         root = example_tree, cwd = [''srv''], faults = []\<rparr>, None)
   \<and> Delete ''users'' ''42''
        (users_state [(''42.json'', File ''{}''), (''42'', Dir [(''x'', File ''y'')])]) =
       (\<lparr>dir = ''db'', mutexes = [''users''], log = ConsoleLogger INFO, logged = [],
         root = Dir [(''srv'', Dir [(''db'', Dir [(''users'', Dir [(''42.json'', File ''{}'')])])])],
         cwd = [''srv''], faults = []\<rparr>, None)"
  by code_simp

end
